theory Spec2Isabelle
  imports Main "HOL-Library.AList"
begin

section \<open>Helalink push scheduler: a shallow embedding of server.js\<close>

text \<open>
  The development follows \<^verbatim>\<open>src/server.js\<close> (the variant that schedules per-recipient
  launch and daily pushes) and, for the two places where the claims cite it, the second
  server variant in \<^verbatim>\<open>src/unnamed/part_002\<close> (\<^verbatim>\<open>loadSubscriptions\<close> and its
  \<^verbatim>\<open>/api/unsubscribe\<close>).

  What lives outside the repository enters as an input of the model:
  \<^item> the outcome of \<^verbatim>\<open>webpush.sendNotification\<close> (accepted, or the value it throws);
  \<^item> the state of a file on disk and the result of \<^verbatim>\<open>JSON.parse\<close>;
  \<^item> the host's \<^verbatim>\<open>Date\<close> (parsing a string, reading local-time fields) and whether
    \<^verbatim>\<open>cron.schedule\<close> accepts an expression and a timezone (node-cron throws otherwise);
  \<^item> the clock reading \<^verbatim>\<open>new Date()\<close> and the identifier minted by \<^verbatim>\<open>uuidv4()\<close>.

  Numbers are integers: what \<^verbatim>\<open>parseInt\<close> returns is rounded to the nearest double, and
  timestamps and delays are milliseconds, far below \<open>2 ^ 53\<close>. The ISO rendering of a
  timestamp is identified with the timestamp. \<^verbatim>\<open>fs.writeFileSync\<close> is taken to succeed. A
  callback that has begun runs to its end before the next event (the \<^verbatim>\<open>await\<close> inside it
  is not a point of interleaving).
\<close>

subsection \<open>Values thrown, and try/catch\<close>

datatype thrown =
    FalsyValue
  | IOError
  | SyntaxError
  | TypeError
  | CronError
  | WebPushError int
  | OtherError

text \<open>\<^verbatim>\<open>err.statusCode\<close>: only the transport's error object carries one.\<close>

fun statusCode :: "thrown \<Rightarrow> int option" where
  "statusCode (WebPushError c) = Some c"
| "statusCode _ = None"

text \<open>\<^verbatim>\<open>err && ...\<close>: the truthiness of the caught value.\<close>

fun truthy_err :: "thrown \<Rightarrow> bool" where
  "truthy_err FalsyValue = False"
| "truthy_err _ = True"

text \<open>A computation either throws (\<open>Inl\<close>) or returns (\<open>Inr\<close>).\<close>

definition try_catch :: "thrown + 'a \<Rightarrow> (thrown \<Rightarrow> thrown + 'a) \<Rightarrow> thrown + 'a" where
  "try_catch body handler = (case body of Inl e \<Rightarrow> handler e | Inr v \<Rightarrow> Inr v)"

subsection \<open>readJSON and loadSubscriptions\<close>

datatype disk_file = NoFile | Unreadable | Contents string

fun existsSync :: "disk_file \<Rightarrow> bool" where
  "existsSync NoFile = False"
| "existsSync _ = True"

fun readFileSync :: "disk_file \<Rightarrow> thrown + string" where
  "readFileSync (Contents raw) = Inr raw"
| "readFileSync _ = Inl IOError"

text \<open>\<^verbatim>\<open>JSON.parse\<close> is the parameter \<open>parse\<close>; \<open>None\<close> is its SyntaxError.\<close>

definition JSON_parse :: "(string \<Rightarrow> 'a option) \<Rightarrow> string \<Rightarrow> thrown + 'a" where
  "JSON_parse parse raw = (case parse raw of None \<Rightarrow> Inl SyntaxError | Some v \<Rightarrow> Inr v)"

text \<open>
  \<^verbatim>\<open>
  function readJSON(file, fallback) {
    try {
      if (!fs.existsSync(file)) return fallback;
      const raw = fs.readFileSync(file, 'utf8');
      return JSON.parse(raw);
    } catch (e) { return fallback; }
  }
  \<close>
\<close>

definition readJSON :: "(string \<Rightarrow> 'a option) \<Rightarrow> disk_file \<Rightarrow> 'a \<Rightarrow> thrown + 'a" where
  "readJSON parse f fallback =
     try_catch
       (if \<not> existsSync f then Inr fallback
        else (case readFileSync f of
                Inl e \<Rightarrow> Inl e
              | Inr raw \<Rightarrow> JSON_parse parse raw))
       (\<lambda>e. Inr fallback)"

text \<open>
  The second server variant keeps a list of subscriptions:
  \<^verbatim>\<open>
  function loadSubscriptions() {
    try {
      if (fs.existsSync(DATA_FILE)) {
        const raw = fs.readFileSync(DATA_FILE, 'utf8');
        return JSON.parse(raw);
      }
    } catch (err) { console.warn(...); }
    return [];
  }
  \<close>
\<close>

definition loadSubscriptions :: "(string \<Rightarrow> 'a list option) \<Rightarrow> disk_file \<Rightarrow> thrown + 'a list" where
  "loadSubscriptions parse f =
     (case try_catch
             (if existsSync f
              then (case readFileSync f of
                      Inl e \<Rightarrow> Inl e
                    | Inr raw \<Rightarrow> (case JSON_parse parse raw of
                                   Inl e \<Rightarrow> Inl e
                                 | Inr v \<Rightarrow> Inr (Some v)))
              else Inr None)
             (\<lambda>err. Inr None) of
        Inl e \<Rightarrow> Inl e
      | Inr (Some v) \<Rightarrow> Inr v
      | Inr None \<Rightarrow> Inr [])"

subsection \<open>sendPushSafely\<close>

record subscription =
  endpoint :: "string option"
  keys :: string

datatype payload = LaunchNotice | DailyReminder | TestNotice

text \<open>The three values \<^verbatim>\<open>sendPushSafely\<close> returns: \<^verbatim>\<open>true\<close>, \<^verbatim>\<open>{removed: true}\<close>, \<^verbatim>\<open>false\<close>.\<close>

datatype send_result = ReturnedTrue | Removed | ReturnedFalse

text \<open>
  \<open>net sub p\<close> is what \<^verbatim>\<open>await webpush.sendNotification(sub, JSON.stringify(p), ...)\<close>
  does: \<open>Inr ()\<close> when the transport accepts, \<open>Inl e\<close> when it throws \<open>e\<close>.
\<close>

definition sendPushSafely ::
  "(subscription \<Rightarrow> payload \<Rightarrow> thrown + unit) \<Rightarrow> subscription \<Rightarrow> payload \<Rightarrow> thrown + send_result" where
  "sendPushSafely net sub p =
     try_catch
       (case net sub p of Inl e \<Rightarrow> Inl e | Inr u \<Rightarrow> Inr ReturnedTrue)
       (\<lambda>err. if truthy_err err \<and> (statusCode err = Some 410 \<or> statusCode err = Some 404)
              then Inr Removed
              else Inr ReturnedFalse)"

subsection \<open>parseInt and the time-of-day entries\<close>

text \<open>
  A JavaScript string is a sequence of UTF-16 code units, and \<^verbatim>\<open>split\<close> and \<^verbatim>\<open>parseInt\<close>
  read an entry of \<^verbatim>\<open>dailyTimes\<close> unit by unit: such a string is a list of code units here.
  \<open>code_units\<close> gives the units of an ASCII literal.
\<close>

type_synonym jsstring = "int list"

definition code_units :: "string \<Rightarrow> jsstring" where
  "code_units str = map of_char str"

text \<open>
  The white space \<^verbatim>\<open>parseInt\<close> skips (StrWhiteSpaceChar): tab, line feed, vertical tab, form
  feed, carriage return, space, U+00A0, U+1680, U+2000 to U+200A, U+2028, U+2029, U+202F,
  U+205F, U+3000 and U+FEFF.
\<close>

definition is_ws :: "int \<Rightarrow> bool" where
  "is_ws c = (c \<in> set [9, 10, 11, 12, 13, 32, 160, 5760, 8232, 8233, 8239, 8287, 12288, 65279]
              \<or> (8192 \<le> c \<and> c \<le> 8202))"

definition is_digit :: "int \<Rightarrow> bool" where
  "is_digit c = (48 \<le> c \<and> c \<le> 57)"

definition digit_val :: "int \<Rightarrow> int" where
  "digit_val c = c - 48"

definition digits_val :: "jsstring \<Rightarrow> int" where
  "digits_val ds = foldl (\<lambda>a c. 10 * a + digit_val c) 0 ds"

text \<open>
  The Number value of a natural number: itself below \<open>2 ^ 53\<close>, otherwise the nearest
  number with 53 significant bits, a tie going to the even one. A result of \<open>2 ^ 1024\<close> or
  more stands for Infinity. \<open>excess_bits n\<close> is how many bits \<open>n\<close> has beyond 53.
\<close>

function excess_bits :: "int \<Rightarrow> nat" where
  "excess_bits n = (if n < 2 ^ 53 then 0 else Suc (excess_bits (n div 2)))"
  by pat_completeness auto
termination
  by (relation "measure nat") auto

declare excess_bits.simps [simp del]

definition to_double :: "int \<Rightarrow> int" where
  "to_double n =
     (if n < 2 ^ 53 then n
      else (let k = excess_bits n;
                q = n div 2 ^ k;
                r = n mod 2 ^ k;
                half = 2 ^ (k - 1)
            in (if half < r \<or> (r = half \<and> odd q) then q + 1 else q) * 2 ^ k))"

text \<open>
  \<^verbatim>\<open>parseInt(s, 10)\<close>: leading white space is dropped, one sign is read, then the longest
  run of decimal digits; with no digit the result is NaN (\<open>None\<close>), otherwise the Number
  value of the integer read.
\<close>

definition parseInt10 :: "jsstring \<Rightarrow> int option" where
  "parseInt10 s =
     (let s1 = dropWhile is_ws s;
          neg = (case s1 of c # r \<Rightarrow> c = 45 | [] \<Rightarrow> False);
          s2 = (case s1 of c # r \<Rightarrow> (if c = 45 \<or> c = 43 then r else s1) | [] \<Rightarrow> s1);
          ds = takeWhile is_digit s2
      in if ds = [] then None
         else Some (if neg then - to_double (digits_val ds) else to_double (digits_val ds)))"

text \<open>\<^verbatim>\<open>s.split(':')\<close>: always at least one part (the colon is unit 58).\<close>

fun split_colon :: "jsstring \<Rightarrow> jsstring list" where
  "split_colon [] = [] # []"
| "split_colon (c # cs) =
     (if c = 58 then [] # split_colon cs
      else (case split_colon cs of p # ps \<Rightarrow> (c # p) # ps | [] \<Rightarrow> [c] # []))"

text \<open>
  \<^verbatim>\<open>Number.isFinite\<close> on what \<^verbatim>\<open>parseInt\<close> returned: NaN is not finite, nor is Infinity.
\<close>

fun Number_isFinite :: "int option \<Rightarrow> bool" where
  "Number_isFinite None = False"
| "Number_isFinite (Some n) = (\<bar>n\<bar> < 2 ^ 1024)"

text \<open>
  \<^verbatim>\<open>
  const [hh, mm] = hhmm.split(':').map(s => parseInt(s, 10));
  if (!Number.isFinite(hh) || !Number.isFinite(mm)) return;
  \<close>
  The result \<open>None\<close> is the early return. A missing second part leaves \<open>mm\<close> undefined,
  which is not finite either.
\<close>

definition parse_hhmm :: "jsstring \<Rightarrow> (int \<times> int) option" where
  "parse_hhmm hhmm =
     (let parts = map parseInt10 (split_colon hhmm);
          hh = (case parts of p # rest \<Rightarrow> p | [] \<Rightarrow> None);
          mm = (case parts of p # q # rest \<Rightarrow> q | _ \<Rightarrow> None)
      in if \<not> Number_isFinite hh \<or> \<not> Number_isFinite mm then None
         else (case (hh, mm) of (Some h, Some m) \<Rightarrow> Some (h, m) | _ \<Rightarrow> None))"

subsection \<open>Records of the store, triggers of the host, and the server's state\<close>

type_synonym ident = string
type_synonym instant = int

text \<open>\<^verbatim>\<open>x || y\<close> and \<^verbatim>\<open>!x\<close> on a string field that may be absent: the empty string is falsy.\<close>

fun truthy :: "string option \<Rightarrow> bool" where
  "truthy None = False"
| "truthy (Some v) = (v \<noteq> [])"

definition or_else :: "string option \<Rightarrow> string option \<Rightarrow> string option" where
  "or_else a b = (if truthy a then a else b)"

text \<open>
  An entry of a \<^verbatim>\<open>dailyTimes\<close> array: a string, or any other JSON value (a number, null, a
  boolean, an object, an array), none of which has a \<^verbatim>\<open>split\<close> method. The subscribe
  handler stores whatever array it is sent.
\<close>

datatype jsval = JString jsstring | NotString

text \<open>
  A \<^verbatim>\<open>dailyTimes\<close> field: absent, present but failing \<^verbatim>\<open>Array.isArray\<close>, or an array.
\<close>

datatype daily_field = Absent | NotArray | Times "jsval list"

text \<open>The default \<^verbatim>\<open>['09:00','13:00','19:00']\<close>.\<close>

definition default_times :: "jsval list" where
  "default_times = map (JString \<circ> code_units) [''09:00'', ''13:00'', ''19:00'']"

text \<open>
  \<^verbatim>\<open>subscriptions\<close> and \<^verbatim>\<open>runtimeJobs\<close> are plain objects: \<^verbatim>\<open>obj[key]\<close> finds an own key
  or else a member inherited from \<^verbatim>\<open>Object.prototype\<close>, and every such member is truthy. An
  inherited member has none of the fields the code goes on to read (\<^verbatim>\<open>subscription\<close>,
  \<^verbatim>\<open>launchTimer\<close>, \<^verbatim>\<open>launchCron\<close>, \<^verbatim>\<open>dailyJobs\<close>) and \<^verbatim>\<open>delete\<close> finds no own key, so
  past a truthiness test it behaves as an absent key does.
\<close>

definition Object_prototype_names :: "string list" where
  "Object_prototype_names =
     [''constructor'', ''__defineGetter__'', ''__defineSetter__'', ''hasOwnProperty'',
      ''__lookupGetter__'', ''__lookupSetter__'', ''isPrototypeOf'', ''propertyIsEnumerable'',
      ''toString'', ''valueOf'', ''__proto__'', ''toLocaleString'']"

definition has_property :: "(string \<rightharpoonup> 'a) \<Rightarrow> string \<Rightarrow> bool" where
  "has_property obj k = (obj k \<noteq> None \<or> k \<in> set Object_prototype_names)"

text \<open>
  \<^verbatim>\<open>subscriptions store: id -> { id, subscription, launchIso, dailyTimes, timezone, createdAt }\<close>;
  the field \<^verbatim>\<open>id\<close> is \<open>uid\<close> here, a missing or falsy \<^verbatim>\<open>subscription\<close> is \<open>None\<close>, a null
  \<^verbatim>\<open>launchIso\<close> is \<open>None\<close>.
\<close>

record item =
  uid :: ident
  subscription :: "subscription option"
  launchIso :: "string option"
  dailyTimes :: daily_field
  timezone :: "string option"
  meta :: string
  createdAt :: instant

datatype cron_field = Star | Num int

text \<open>
  A trigger held by the host: a \<^verbatim>\<open>setTimeout\<close> of so many milliseconds, or a node-cron job
  of five fields (minute, hour, day of month, month, day of week) with its
  \<^verbatim>\<open>{ timezone }\<close> option.
\<close>

datatype timing = After int | Cron "cron_field list" string

datatype kind = LaunchTimer | LaunchCron | DailyJob

text \<open>
  \<open>owner\<close> and \<open>target\<close> are the \<^verbatim>\<open>id\<close> and \<^verbatim>\<open>item.subscription\<close> the callback closes over;
  \<open>armed\<close> is false once the timer has been cleared or has fired, or the job stopped.
\<close>

record trigger =
  owner :: ident
  kind :: kind
  target :: subscription
  timing :: timing
  armed :: bool

text \<open>\<^verbatim>\<open>runtimeJobs: id -> { launchTimer, launchCron, dailyJobs: [cronJob], lastSentAt }\<close>;
  a job or timer object is the index of its trigger in the host's list.\<close>

record jobs =
  launchTimer :: "nat option"
  launchCron :: "nat option"
  dailyJobs :: "nat list"
  lastSentAt :: "instant option"

text \<open>
  \<open>subscriptions\<close> is the in-memory object (keys in insertion order), \<open>sub_file\<close> what
  \<^verbatim>\<open>subscriptions.json\<close> holds, \<open>triggers\<close> every timer and cron job the host was ever
  given (none is removed, a stopped one is no longer armed), \<open>pushes\<close> the dispatches
  attempted so far.
\<close>

record state =
  subscriptions :: "(ident \<times> item) list"
  sub_file :: "(ident \<times> item) list"
  runtimeJobs :: "ident \<rightharpoonup> jobs"
  triggers :: "trigger list"
  pushes :: "(subscription \<times> payload) list"

text \<open>The host: \<^verbatim>\<open>new Date(s)\<close> (\<open>None\<close> is an invalid date), the local-time accessors
  of a date, and node-cron's acceptance of an expression with a timezone.\<close>

record host =
  date_parse :: "string \<Rightarrow> instant option"
  getMinutes :: "instant \<Rightarrow> int"
  getHours :: "instant \<Rightarrow> int"
  getDate :: "instant \<Rightarrow> int"
  getMonth :: "instant \<Rightarrow> int"
  cron_accepts :: "cron_field list \<Rightarrow> string \<Rightarrow> bool"

definition persistSubscriptions :: "state \<Rightarrow> state" where
  "persistSubscriptions s = s\<lparr>sub_file := subscriptions s\<rparr>"

subsection \<open>Stopping and arming triggers\<close>

text \<open>\<^verbatim>\<open>clearTimeout(t)\<close> and \<^verbatim>\<open>job.stop()\<close>; handles come from \<open>arm\<close>, so they are in range.\<close>

definition stop :: "nat \<Rightarrow> trigger list \<Rightarrow> trigger list" where
  "stop h ts = (if h < length ts then ts[h := (ts ! h)\<lparr>armed := False\<rparr>] else ts)"

fun stop_opt :: "nat option \<Rightarrow> trigger list \<Rightarrow> trigger list" where
  "stop_opt None ts = ts"
| "stop_opt (Some h) ts = stop h ts"

fun stop_each :: "nat list \<Rightarrow> trigger list \<Rightarrow> trigger list" where
  "stop_each [] ts = ts"
| "stop_each (h # hs) ts = stop_each hs (stop h ts)"

text \<open>
  \<^verbatim>\<open>
  if (old.launchTimer) clearTimeout(old.launchTimer);
  if (old.launchCron) try { old.launchCron.stop(); } catch(e){}
  if (old.dailyJobs) old.dailyJobs.forEach(j => j.stop && j.stop());
  \<close>
\<close>

definition clear_jobs :: "jobs \<Rightarrow> trigger list \<Rightarrow> trigger list" where
  "clear_jobs old ts =
     stop_each (dailyJobs old) (stop_opt (launchCron old) (stop_opt (launchTimer old) ts))"

text \<open>\<^verbatim>\<open>setTimeout\<close> and an accepted \<^verbatim>\<open>cron.schedule\<close> hand back a new, armed trigger.\<close>

definition arm :: "trigger \<Rightarrow> state \<Rightarrow> nat \<times> state" where
  "arm t s = (length (triggers s), s\<lparr>triggers := triggers s @ [t]\<rparr>)"

text \<open>An assignment \<^verbatim>\<open>runtimeJobs[id].field = ...\<close> inside \<^verbatim>\<open>scheduleFor\<close>, where
  \<^verbatim>\<open>runtimeJobs[id]\<close> has just been set.\<close>

definition upd_jobs :: "ident \<Rightarrow> (jobs \<Rightarrow> jobs) \<Rightarrow> state \<Rightarrow> state" where
  "upd_jobs rid f s =
     (case runtimeJobs s rid of
        None \<Rightarrow> s
      | Some r \<Rightarrow> s\<lparr>runtimeJobs := (runtimeJobs s)(rid \<mapsto> f r)\<rparr>)"

subsection \<open>scheduleFor\<close>

definition effective_tz :: "item \<Rightarrow> string" where
  "effective_tz it = (if truthy (timezone it) then (case timezone it of Some z \<Rightarrow> z | None \<Rightarrow> [])
                      else ''Africa/Nairobi'')"

definition launch_expr :: "host \<Rightarrow> instant \<Rightarrow> cron_field list" where
  "launch_expr h L = [Num (getMinutes h L), Num (getHours h L), Num (getDate h L),
                      Num (getMonth h L + 1), Star]"

text \<open>\<^verbatim>\<open>`${mm} ${hh} * * *`\<close>; \<open>Num n\<close> stands for the rendering of the number \<open>n\<close>.\<close>

definition daily_expr :: "int \<Rightarrow> int \<Rightarrow> cron_field list" where
  "daily_expr hh mm = [Num mm, Num hh, Star, Star, Star]"

text \<open>
  The one-off launch push (server.js lines 100 to 139). An invalid date makes \<open>delay\<close> NaN
  and both comparisons false. When \<^verbatim>\<open>cron.schedule\<close> throws, nothing has been armed.
\<close>

definition schedule_launch ::
  "host \<Rightarrow> instant \<Rightarrow> ident \<Rightarrow> item \<Rightarrow> subscription \<Rightarrow> string \<Rightarrow> state \<Rightarrow> thrown option \<times> state" where
  "schedule_launch h now rid it sb tz s =
     (if \<not> truthy (launchIso it) then (None, s)
      else (case launchIso it of
              None \<Rightarrow> (None, s)
            | Some isoStr \<Rightarrow>
               (case date_parse h isoStr of
                  None \<Rightarrow> (None, s)
                | Some launchDate \<Rightarrow>
                   (let delay = launchDate - now in
                    if 0 < delay \<and> delay < 2147483647 then
                      (let (t, s1) = arm \<lparr>owner = rid, kind = LaunchTimer, target = sb,
                                           timing = After delay, armed = True\<rparr> s
                       in (None, upd_jobs rid (\<lambda>r. r\<lparr>launchTimer := Some t\<rparr>) s1))
                    else if 0 < delay then
                      (if cron_accepts h (launch_expr h launchDate) tz then
                         (let (job, s1) = arm \<lparr>owner = rid, kind = LaunchCron, target = sb,
                                                timing = Cron (launch_expr h launchDate) tz,
                                                armed = True\<rparr> s
                          in (None, upd_jobs rid (\<lambda>r. r\<lparr>launchCron := Some job\<rparr>) s1))
                       else (Some CronError, s))
                    else (None, s)))))"

text \<open>
  The \<^verbatim>\<open>forEach\<close> over \<^verbatim>\<open>item.dailyTimes\<close> (server.js lines 143 to 161). On an entry that
  is not a string \<^verbatim>\<open>hhmm.split\<close> throws a TypeError; an entry that does not parse returns
  early from its callback; \<^verbatim>\<open>cron.schedule\<close> may throw. A throw leaves the loop and
  \<^verbatim>\<open>scheduleFor\<close>: the entries after it are not visited, what was armed before it stays.
\<close>

fun daily_loop ::
  "host \<Rightarrow> ident \<Rightarrow> subscription \<Rightarrow> string \<Rightarrow> jsval list \<Rightarrow> state \<Rightarrow> thrown option \<times> state" where
  "daily_loop h rid sb tz [] s = (None, s)"
| "daily_loop h rid sb tz (NotString # rest) s = (Some TypeError, s)"
| "daily_loop h rid sb tz (JString hhmm # rest) s =
     (case parse_hhmm hhmm of
        None \<Rightarrow> daily_loop h rid sb tz rest s
      | Some (hh, mm) \<Rightarrow>
          (if cron_accepts h (daily_expr hh mm) tz then
             (let (job, s1) = arm \<lparr>owner = rid, kind = DailyJob, target = sb,
                                    timing = Cron (daily_expr hh mm) tz, armed = True\<rparr> s
              in daily_loop h rid sb tz rest
                   (upd_jobs rid (\<lambda>r. r\<lparr>dailyJobs := dailyJobs r @ [job]\<rparr>) s1))
           else (Some CronError, s)))"

definition fresh_jobs :: jobs where
  "fresh_jobs = \<lparr>launchTimer = None, launchCron = None, dailyJobs = [], lastSentAt = None\<rparr>"

text \<open>
  The head of \<^verbatim>\<open>scheduleFor\<close> (server.js lines 85 to 92), "clear previous runtime jobs":
  \<^verbatim>\<open>
  if (runtimeJobs[id]) { const old = runtimeJobs[id]; ...stop what it references... }
  runtimeJobs[id] = { dailyJobs: [] };
  \<close>
\<close>

definition clear_previous :: "ident \<Rightarrow> state \<Rightarrow> state" where
  "clear_previous rid s =
     (let s0 = (case runtimeJobs s rid of
                  None \<Rightarrow> s
                | Some old \<Rightarrow> s\<lparr>triggers := clear_jobs old (triggers s)\<rparr>)
      in s0\<lparr>runtimeJobs := (runtimeJobs s0)(rid \<mapsto> fresh_jobs)\<rparr>)"

text \<open>\<^verbatim>\<open>function scheduleFor(id)\<close>, at the clock reading \<open>now\<close>. The result carries what
  was thrown, if anything, and the state reached.\<close>

definition scheduleFor :: "host \<Rightarrow> instant \<Rightarrow> ident \<Rightarrow> state \<Rightarrow> thrown option \<times> state" where
  "scheduleFor h now rid s =
     (let s1 = clear_previous rid s
      in case map_of (subscriptions s1) rid of
           None \<Rightarrow> (None, s1)
         | Some it \<Rightarrow>
            (case subscription it of
               None \<Rightarrow> (None, s1)
             | Some sb \<Rightarrow>
                (case schedule_launch h now rid it sb (effective_tz it) s1 of
                   (Some e, s2) \<Rightarrow> (Some e, s2)
                 | (None, s2) \<Rightarrow>
                    (case dailyTimes it of
                       Times xs \<Rightarrow> daily_loop h rid sb (effective_tz it) xs s2
                     | _ \<Rightarrow> (None, s2)))))"

text \<open>
  \<^verbatim>\<open>
  function rescheduleAll() {
    Object.keys(subscriptions).forEach(id => {
      try { scheduleFor(id); } catch (e) { console.error('reschedule error', e); }
    });
  }
  \<close>
  \<open>clock id\<close> is the clock reading of the call for \<open>id\<close>.
\<close>

fun reschedule_keys :: "host \<Rightarrow> (ident \<Rightarrow> instant) \<Rightarrow> ident list \<Rightarrow> state \<Rightarrow> state" where
  "reschedule_keys h clock [] s = s"
| "reschedule_keys h clock (rid # ids) s =
     reschedule_keys h clock ids (snd (scheduleFor h (clock rid) rid s))"

definition rescheduleAll :: "host \<Rightarrow> (ident \<Rightarrow> instant) \<Rightarrow> state \<Rightarrow> state" where
  "rescheduleAll h clock s = reschedule_keys h clock (map fst (subscriptions s)) s"

subsection \<open>What a trigger does when it fires\<close>

text \<open>\<^verbatim>\<open>delete subscriptions[id]; persistSubscriptions();\<close>\<close>

definition remove_record :: "ident \<Rightarrow> state \<Rightarrow> state" where
  "remove_record rid s =
     persistSubscriptions (s\<lparr>subscriptions := AList.delete rid (subscriptions s)\<rparr>)"

text \<open>One call of \<^verbatim>\<open>sendPushSafely\<close> from a callback: the attempt is recorded in \<open>pushes\<close>.\<close>

definition dispatch ::
  "(subscription \<Rightarrow> payload \<Rightarrow> thrown + unit) \<Rightarrow> subscription \<Rightarrow> payload \<Rightarrow> state
     \<Rightarrow> (thrown + send_result) \<times> state" where
  "dispatch net sb p s = (sendPushSafely net sb p, s\<lparr>pushes := pushes s @ [(sb, p)]\<rparr>)"

text \<open>
  The \<^verbatim>\<open>setTimeout\<close> callback (server.js lines 106 to 117):
  \<^verbatim>\<open>
  const res = await sendPushSafely(item.subscription, {...});
  runtimeJobs[id].lastSentAt = new Date().toISOString();
  if (res && res.removed) { delete subscriptions[id]; persistSubscriptions(); }
  \<close>
  The assignment throws a TypeError when \<^verbatim>\<open>runtimeJobs[id]\<close> is undefined.
\<close>

definition launch_timer_cb ::
  "(subscription \<Rightarrow> payload \<Rightarrow> thrown + unit) \<Rightarrow> instant \<Rightarrow> ident \<Rightarrow> subscription \<Rightarrow> state
     \<Rightarrow> thrown option \<times> state" where
  "launch_timer_cb net now rid sb s =
     (case dispatch net sb LaunchNotice s of
        (Inl e, s1) \<Rightarrow> (Some e, s1)
      | (Inr res, s1) \<Rightarrow>
         (case runtimeJobs s1 rid of
            None \<Rightarrow> (Some TypeError, s1)
          | Some r \<Rightarrow>
             (let s2 = s1\<lparr>runtimeJobs := (runtimeJobs s1)(rid \<mapsto> r\<lparr>lastSentAt := Some now\<rparr>)\<rparr>
              in if res = Removed then (None, remove_record rid s2) else (None, s2))))"

text \<open>
  The launch cron callback (server.js lines 124 to 135):
  \<^verbatim>\<open>
  const res = await sendPushSafely(item.subscription, {...});
  if (res && res.removed) { delete subscriptions[id]; persistSubscriptions(); }
  job.stop();
  \<close>
\<close>

definition launch_cron_cb ::
  "(subscription \<Rightarrow> payload \<Rightarrow> thrown + unit) \<Rightarrow> nat \<Rightarrow> ident \<Rightarrow> subscription \<Rightarrow> state
     \<Rightarrow> thrown option \<times> state" where
  "launch_cron_cb net job rid sb s =
     (case dispatch net sb LaunchNotice s of
        (Inl e, s1) \<Rightarrow> (Some e, s1)
      | (Inr res, s1) \<Rightarrow>
         (let s2 = (if res = Removed then remove_record rid s1 else s1)
          in (None, s2\<lparr>triggers := stop job (triggers s2)\<rparr>)))"

text \<open>
  The daily cron callback (server.js lines 147 to 159):
  \<^verbatim>\<open>
  const res = await sendPushSafely(item.subscription, {...});
  runtimeJobs[id].lastSentAt = new Date().toISOString();
  if (res && res.removed) { delete subscriptions[id]; persistSubscriptions(); job.stop(); }
  \<close>
\<close>

definition daily_cb ::
  "(subscription \<Rightarrow> payload \<Rightarrow> thrown + unit) \<Rightarrow> instant \<Rightarrow> nat \<Rightarrow> ident \<Rightarrow> subscription \<Rightarrow> state
     \<Rightarrow> thrown option \<times> state" where
  "daily_cb net now job rid sb s =
     (case dispatch net sb DailyReminder s of
        (Inl e, s1) \<Rightarrow> (Some e, s1)
      | (Inr res, s1) \<Rightarrow>
         (case runtimeJobs s1 rid of
            None \<Rightarrow> (Some TypeError, s1)
          | Some r \<Rightarrow>
             (let s2 = s1\<lparr>runtimeJobs := (runtimeJobs s1)(rid \<mapsto> r\<lparr>lastSentAt := Some now\<rparr>)\<rparr>
              in if res = Removed
                 then (let s3 = remove_record rid s2
                       in (None, s3\<lparr>triggers := stop job (triggers s3)\<rparr>))
                 else (None, s2))))"

text \<open>
  The host fires trigger \<open>h\<close> at the clock reading \<open>now\<close>, the transport answering \<open>net\<close>.
  Only an armed trigger fires; a timer is spent by firing. The callback runs to its end
  before anything else happens.
\<close>

definition fire ::
  "(subscription \<Rightarrow> payload \<Rightarrow> thrown + unit) \<Rightarrow> instant \<Rightarrow> nat \<Rightarrow> state \<Rightarrow> thrown option \<times> state" where
  "fire net now h s =
     (if h < length (triggers s) \<and> armed (triggers s ! h) then
        (let t = triggers s ! h in
         case kind t of
           LaunchTimer \<Rightarrow>
             launch_timer_cb net now (owner t) (target t) (s\<lparr>triggers := stop h (triggers s)\<rparr>)
         | LaunchCron \<Rightarrow> launch_cron_cb net h (owner t) (target t) s
         | DailyJob \<Rightarrow> daily_cb net now h (owner t) (target t) s)
      else (None, s))"

subsection \<open>The request handlers\<close>

record response =
  status :: nat
  success :: "bool option"
  resp_id :: "ident option"
  error :: "string option"

definition json_success :: "bool \<Rightarrow> response" where
  "json_success b = \<lparr>status = 200, success = Some b, resp_id = None, error = None\<rparr>"

record subscribe_body =
  b_subscription :: "subscription option"
  b_launchIso :: "string option"
  b_dailyTimes :: daily_field
  b_timezone :: "string option"
  b_meta :: "string option"

text \<open>
  \<^verbatim>\<open>app.post('/api/subscribe', ...)\<close> (server.js lines 249 to 269); \<open>new_id\<close> is what
  \<^verbatim>\<open>uuidv4()\<close> returns, \<open>t0\<close> the clock reading for \<^verbatim>\<open>createdAt\<close>, \<open>t1\<close> the one taken
  inside \<^verbatim>\<open>scheduleFor\<close>, whose throw is caught and logged.
\<close>

definition subscribe ::
  "host \<Rightarrow> ident \<Rightarrow> instant \<Rightarrow> instant \<Rightarrow> subscribe_body \<Rightarrow> state \<Rightarrow> response \<times> state" where
  "subscribe h new_id t0 t1 body s =
     (case b_subscription body of
        None \<Rightarrow> (\<lparr>status = 400, success = None, resp_id = None,
                  error = Some ''Invalid subscription''\<rparr>, s)
      | Some sb \<Rightarrow>
         (if \<not> truthy (endpoint sb)
          then (\<lparr>status = 400, success = None, resp_id = None,
                 error = Some ''Invalid subscription''\<rparr>, s)
          else
            (let it = \<lparr>uid = new_id,
                       subscription = Some sb,
                       launchIso = (if truthy (b_launchIso body) then b_launchIso body else None),
                       dailyTimes = (case b_dailyTimes body of
                                       Times xs \<Rightarrow> Times xs
                                     | _ \<Rightarrow> Times default_times),
                       timezone = (if truthy (b_timezone body) then b_timezone body
                                   else Some ''Africa/Nairobi''),
                       meta = (if truthy (b_meta body)
                               then (case b_meta body of Some m \<Rightarrow> m | None \<Rightarrow> ''{}'')
                               else ''{}''),
                       createdAt = t0\<rparr>;
                 s1 = persistSubscriptions
                        (s\<lparr>subscriptions := AList.update new_id it (subscriptions s)\<rparr>);
                 s2 = snd (scheduleFor h t1 new_id s1)
             in (\<lparr>status = 200, success = Some True, resp_id = Some new_id, error = None\<rparr>, s2))))"

record unsubscribe_req =
  body_id :: "string option"
  query_id :: "string option"

text \<open>
  \<^verbatim>\<open>app.post('/api/unsubscribe', ...)\<close> (server.js lines 272 to 287):
  \<^verbatim>\<open>
  const id = req.body.id || req.query.id;
  if (!id || !subscriptions[id]) return res.json({ success: false });
  if (runtimeJobs[id]) { ...stop everything...; delete runtimeJobs[id]; }
  delete subscriptions[id];
  persistSubscriptions();
  res.json({ success: true });
  \<close>
  The guard is passed by a stored id and by the name of a member of \<^verbatim>\<open>Object.prototype\<close>.
\<close>

definition unsubscribe :: "unsubscribe_req \<Rightarrow> state \<Rightarrow> response \<times> state" where
  "unsubscribe req s =
     (case or_else (body_id req) (query_id req) of
        None \<Rightarrow> (json_success False, s)
      | Some rid \<Rightarrow>
         (if rid = [] \<or> \<not> has_property (map_of (subscriptions s)) rid
          then (json_success False, s)
          else
            (let s1 = (case runtimeJobs s rid of
                         None \<Rightarrow> s
                       | Some r \<Rightarrow> s\<lparr>triggers := clear_jobs r (triggers s),
                                     runtimeJobs := (runtimeJobs s)(rid := None)\<rparr>)
             in (json_success True, remove_record rid s1))))"

text \<open>The server's state when it starts (server.js lines 48 to 50), the store having
  been loaded by \<^verbatim>\<open>readJSON(SUB_FILE, {})\<close>.\<close>

definition load_store :: "(string \<Rightarrow> (ident \<times> item) list option) \<Rightarrow> disk_file \<Rightarrow> thrown + (ident \<times> item) list" where
  "load_store parse f = readJSON parse f []"

definition boot :: "(ident \<times> item) list \<Rightarrow> state" where
  "boot store = \<lparr>subscriptions = store, sub_file = store, runtimeJobs = Map.empty,
                 triggers = [], pushes = []\<rparr>"

subsection \<open>The second variant's unsubscribe (src/unnamed/part_002)\<close>






subsection \<open>Notions used to state the properties\<close>

text \<open>The triggers of recipient \<open>rid\<close> that can still fire.\<close>

definition armed_of :: "ident \<Rightarrow> state \<Rightarrow> trigger list" where
  "armed_of rid s = filter (\<lambda>t. owner t = rid \<and> armed t) (triggers s)"

definition handles_of :: "jobs \<Rightarrow> nat list" where
  "handles_of r =
     (case launchTimer r of None \<Rightarrow> [] | Some t \<Rightarrow> [t]) @
     (case launchCron r of None \<Rightarrow> [] | Some j \<Rightarrow> [j]) @ dailyJobs r"

text \<open>
  The bookkeeping invariant of \<^verbatim>\<open>runtimeJobs\<close>: a trigger that can still fire is
  referenced from its owner's entry, and an entry references triggers of its own
  recipient only. It holds when the server starts and every operation keeps it (the
  lemmas \<open>tracked_boot\<close>, \<open>scheduleFor_tracked\<close>, \<open>tracked_rescheduleAll\<close>,
  \<open>tracked_subscribe\<close>, \<open>tracked_unsubscribe\<close> and \<open>tracked_fire\<close> below).
\<close>

definition tracked :: "state \<Rightarrow> bool" where
  "tracked s =
     ((\<forall>h. h < length (triggers s) \<and> armed (triggers s ! h) \<longrightarrow>
            (\<exists>r. runtimeJobs s (owner (triggers s ! h)) = Some r \<and> h \<in> set (handles_of r))) \<and>
      (\<forall>rid r h. runtimeJobs s rid = Some r \<and> h \<in> set (handles_of r) \<longrightarrow>
            h < length (triggers s) \<and> owner (triggers s ! h) = rid))"

text \<open>
  \<open>grown rid s s' D\<close>: from \<open>s\<close> to \<open>s'\<close> the armed triggers \<open>D\<close> of \<open>rid\<close> were handed to
  the host and recorded in the entry of \<open>rid\<close>; nothing else changed.
\<close>

definition grown :: "ident \<Rightarrow> state \<Rightarrow> state \<Rightarrow> trigger list \<Rightarrow> bool" where
  "grown rid s s' D =
     (triggers s' = triggers s @ D \<and>
      list_all (\<lambda>t. owner t = rid \<and> armed t) D \<and>
      subscriptions s' = subscriptions s \<and> sub_file s' = sub_file s \<and> pushes s' = pushes s \<and>
      (\<forall>k. k \<noteq> rid \<longrightarrow> runtimeJobs s' k = runtimeJobs s k) \<and>
      (\<exists>r r'. runtimeJobs s rid = Some r \<and> runtimeJobs s' rid = Some r' \<and>
               lastSentAt r' = lastSentAt r \<and>
               set (handles_of r') =
                 set (handles_of r) \<union> {length (triggers s) ..< length (triggers s) + length D}))"

text \<open>The delay \<^verbatim>\<open>launchDate - now\<close> of a record, when it has a launch date that parses.\<close>

definition launch_delay :: "host \<Rightarrow> instant \<Rightarrow> item \<Rightarrow> int option" where
  "launch_delay h now it =
     (if truthy (launchIso it)
      then (case launchIso it of
              None \<Rightarrow> None
            | Some isoStr \<Rightarrow> map_option (\<lambda>d. d - now) (date_parse h isoStr))
      else None)"

text \<open>
  What the launch part of \<^verbatim>\<open>scheduleFor\<close> hands to the host for a record: nothing, one
  timer, or one cron job (nothing as well when node-cron rejects the expression).
\<close>

definition launch_part :: "host \<Rightarrow> instant \<Rightarrow> ident \<Rightarrow> item \<Rightarrow> subscription \<Rightarrow> string \<Rightarrow> trigger list" where
  "launch_part h now rid it sb tz =
     (case launch_delay h now it of
        None \<Rightarrow> []
      | Some d \<Rightarrow>
          if 0 < d \<and> d < 2147483647
          then [\<lparr>owner = rid, kind = LaunchTimer, target = sb, timing = After d, armed = True\<rparr>]
          else if 0 < d \<and> cron_accepts h (launch_expr h (d + now)) tz
          then [\<lparr>owner = rid, kind = LaunchCron, target = sb,
                  timing = Cron (launch_expr h (d + now)) tz, armed = True\<rparr>]
          else [])"

text \<open>node-cron accepts the launch expression of the record, if one is needed.\<close>

definition launch_accepted :: "host \<Rightarrow> instant \<Rightarrow> item \<Rightarrow> string \<Rightarrow> bool" where
  "launch_accepted h now it tz =
     (case launch_delay h now it of
        None \<Rightarrow> True
      | Some d \<Rightarrow> d < 2147483647 \<or> cron_accepts h (launch_expr h (d + now)) tz)"

text \<open>The entries the \<^verbatim>\<open>forEach\<close> visits: those of the array, none when the field is not one.\<close>

definition daily_entries :: "item \<Rightarrow> jsval list" where
  "daily_entries it = (case dailyTimes it of Times xs \<Rightarrow> xs | _ \<Rightarrow> [])"

text \<open>The hour and minute read from an entry, when it is a string and they parse.\<close>

fun parse_entry :: "jsval \<Rightarrow> (int \<times> int) option" where
  "parse_entry (JString hhmm) = parse_hhmm hhmm"
| "parse_entry NotString = None"

text \<open>No entry makes the loop throw: each is a string, and node-cron accepts the
  expression of each that parses.\<close>

fun entry_passes :: "host \<Rightarrow> string \<Rightarrow> jsval \<Rightarrow> bool" where
  "entry_passes h tz NotString = False"
| "entry_passes h tz (JString hhmm) =
     (case parse_hhmm hhmm of
        None \<Rightarrow> True
      | Some (hh, mm) \<Rightarrow> cron_accepts h (daily_expr hh mm) tz)"

definition entries_pass :: "host \<Rightarrow> string \<Rightarrow> jsval list \<Rightarrow> bool" where
  "entries_pass h tz xs = list_all (entry_passes h tz) xs"

text \<open>The daily trigger \<^verbatim>\<open>scheduleFor\<close> arms for a parsed entry.\<close>

definition daily_trigger :: "ident \<Rightarrow> subscription \<Rightarrow> string \<Rightarrow> int \<times> int \<Rightarrow> trigger" where
  "daily_trigger rid sb tz hm =
     \<lparr>owner = rid, kind = DailyJob, target = sb,
      timing = Cron (daily_expr (fst hm) (snd hm)) tz, armed = True\<rparr>"

text \<open>
  What the daily part of \<^verbatim>\<open>scheduleFor\<close> hands to the host for a record: nothing when the
  launch part has thrown; otherwise one trigger for each entry that parses, among the
  entries before the first one that throws.
\<close>

definition daily_part :: "host \<Rightarrow> instant \<Rightarrow> ident \<Rightarrow> item \<Rightarrow> subscription \<Rightarrow> string \<Rightarrow> trigger list" where
  "daily_part h now rid it sb tz =
     (if launch_accepted h now it tz
      then map (daily_trigger rid sb tz)
             (List.map_filter parse_entry (takeWhile (entry_passes h tz) (daily_entries it)))
      else [])"

text \<open>The timezone a trigger's fire time is evaluated in: a plain timer has none.\<close>

fun zone_of :: "timing \<Rightarrow> string option" where
  "zone_of (After d) = None"
| "zone_of (Cron e z) = Some z"

text \<open>The instant at which a timer handed to the host at \<open>now\<close> fires.\<close>

fun timer_instant :: "instant \<Rightarrow> timing \<Rightarrow> instant option" where
  "timer_instant now (After d) = Some (now + d)"
| "timer_instant now (Cron e z) = None"

subsection \<open>Sample inputs\<close>

text \<open>
  A host in the zone Africa/Nairobi whose node-cron accepts what it is given:
  \<^verbatim>\<open>new Date('2025-09-13T00:00:00')\<close> is 2025-09-12T21:00:00Z there, and the local fields of
  that date are minute 0, hour 0, day 13, month index 8.
\<close>

definition launch_ms :: instant where
  "launch_ms = 1757710800000"

definition sample_host :: host where
  "sample_host =
     \<lparr>date_parse = (\<lambda>str. if str = ''2025-09-13T00:00:00'' then Some launch_ms else None),
      getMinutes = (\<lambda>t. 0), getHours = (\<lambda>t. 0), getDate = (\<lambda>t. 13), getMonth = (\<lambda>t. 8),
      cron_accepts = (\<lambda>e z. True)\<rparr>"

text \<open>
  The same host with a node-cron that rejects a minute outside 0 to 59, an hour outside 0
  to 23, and a timezone it does not know (three names stand for the zones it knows).
\<close>

definition known_zones :: "string list" where
  "known_zones = [''Africa/Nairobi'', ''UTC'', ''America/New_York'']"

definition strict_host :: host where
  "strict_host =
     sample_host\<lparr>cron_accepts :=
       (\<lambda>e z. z \<in> set known_zones \<and>
              (case e of
                 Num m # Num hr # rest \<Rightarrow> 0 \<le> m \<and> m \<le> 59 \<and> 0 \<le> hr \<and> hr \<le> 23
               | _ \<Rightarrow> False))\<rparr>"

text \<open>
  A host in UTC: it reads the same string as 2025-09-13T00:00:00Z, three hours after the
  instant the string names in Africa/Nairobi (\<open>launch_ms\<close>); the local fields it reads from
  that date are again minute 0, hour 0, day 13, month index 8.
\<close>

definition utc_host :: host where
  "utc_host =
     sample_host\<lparr>date_parse :=
       (\<lambda>str. if str = ''2025-09-13T00:00:00'' then Some (launch_ms + 10800000) else None)\<rparr>"

definition sample_sub :: subscription where
  "sample_sub = \<lparr>endpoint = Some ''https://push.example/device-1'', keys = ''p256dh+auth''\<rparr>"

text \<open>Transports: one that accepts, one that answers 410 Gone.\<close>

definition net_ok :: "subscription \<Rightarrow> payload \<Rightarrow> thrown + unit" where
  "net_ok sb p = Inr ()"

definition net_gone :: "subscription \<Rightarrow> payload \<Rightarrow> thrown + unit" where
  "net_gone sb p = Inl (WebPushError 410)"

text \<open>A record with the id, the launch date and the entries of \<^verbatim>\<open>dailyTimes\<close> given, in
  the zone Africa/Nairobi; \<open>sample_item\<close> takes the entries as strings.\<close>

definition sample_record :: "ident \<Rightarrow> string option \<Rightarrow> jsval list \<Rightarrow> item" where
  "sample_record rid launch entries =
     \<lparr>uid = rid, subscription = Some sample_sub, launchIso = launch,
      dailyTimes = Times entries, timezone = Some ''Africa/Nairobi'', meta = ''{}'',
      createdAt = 0\<rparr>"

definition sample_item :: "ident \<Rightarrow> string option \<Rightarrow> string list \<Rightarrow> item" where
  "sample_item rid launch entries =
     sample_record rid launch (map (JString \<circ> code_units) entries)"

text \<open>The server just after \<^verbatim>\<open>rescheduleAll\<close> on a store holding one record with two
  daily times and no launch date, and the same with a launch date ten seconds ahead.\<close>

definition two_dailies :: state where
  "two_dailies =
     rescheduleAll sample_host (\<lambda>k. 0) (boot [(''a'', sample_item ''a'' None [''09:00'', ''13:00''])])"

definition launch_and_daily :: state where
  "launch_and_daily =
     rescheduleAll sample_host (\<lambda>k. launch_ms - 10000)
       (boot [(''a'', sample_item ''a'' (Some ''2025-09-13T00:00:00'') [''09:00''])])"

text \<open>
  The server just after \<^verbatim>\<open>rescheduleAll\<close> on a store of two records: \<open>b\<close> with the entries
  \<^verbatim>\<open>['soon', 900, '13:00']\<close> and \<open>a\<close> with \<^verbatim>\<open>['09:00']\<close>; and on the strict host with \<open>b\<close>
  holding \<^verbatim>\<open>['soon', '24:00', '13:00']\<close>.
\<close>

definition number_entry_store :: "(ident \<times> item) list" where
  "number_entry_store =
     [(''b'', sample_record ''b'' None
                [JString (code_units ''soon''), NotString, JString (code_units ''13:00'')]),
      (''a'', sample_item ''a'' None [''09:00''])]"

definition number_entry_rescheduled :: state where
  "number_entry_rescheduled = rescheduleAll sample_host (\<lambda>k. 0) (boot number_entry_store)"

definition hour24_store :: "(ident \<times> item) list" where
  "hour24_store =
     [(''b'', sample_item ''b'' None [''soon'', ''24:00'', ''13:00'']),
      (''a'', sample_item ''a'' None [''09:00''])]"

definition hour24_rescheduled :: state where
  "hour24_rescheduled = rescheduleAll strict_host (\<lambda>k. 0) (boot hour24_store)"

text \<open>
  The payload the site's own client sends (\<^verbatim>\<open>src/unnamed/part_000\<close>, lines 118 to 120):
  launch \<^verbatim>\<open>'2025-09-13T00:00:00'\<close>, timezone \<^verbatim>\<open>'Africa/Nairobi'\<close>; here with one daily
  time. In Africa/Nairobi the string names the instant \<open>launch_ms\<close>. The record is scheduled
  on the UTC host ten seconds before that instant, far ahead of it, and one hour after it;
  and on the Nairobi host one hour after it.
\<close>

definition launch_store :: "(ident \<times> item) list" where
  "launch_store = [(''a'', sample_item ''a'' (Some ''2025-09-13T00:00:00'') [''09:00''])]"

definition utc_near :: state where
  "utc_near = snd (scheduleFor utc_host (launch_ms - 10000) ''a'' (boot launch_store))"

definition utc_far :: state where
  "utc_far = snd (scheduleFor utc_host (launch_ms - 3000000000) ''a'' (boot launch_store))"

definition utc_late :: state where
  "utc_late = snd (scheduleFor utc_host (launch_ms + 3600000) ''a'' (boot launch_store))"

definition nairobi_late :: state where
  "nairobi_late = snd (scheduleFor sample_host (launch_ms + 3600000) ''a'' (boot launch_store))"

text \<open>
  A record with the same launch string stored with the zone America/New_York, where the
  string names an instant seven hours after \<open>launch_ms\<close>, scheduled on the Nairobi host ten
  seconds before \<open>launch_ms\<close>.
\<close>

definition new_york_store :: "(ident \<times> item) list" where
  "new_york_store =
     [(''n'', (sample_item ''n'' (Some ''2025-09-13T00:00:00'') [''09:00''])
                \<lparr>timezone := Some ''America/New_York''\<rparr>)]"

definition new_york_near :: state where
  "new_york_near = snd (scheduleFor sample_host (launch_ms - 10000) ''n'' (boot new_york_store))"



section \<open>Lemmas\<close>

subsection \<open>Stopping triggers\<close>

lemma length_stop [simp]: "length (stop h ts) = length ts"
  by (simp add: stop_def)

lemma nth_stop:
  "i < length ts \<Longrightarrow> stop h ts ! i = (if i = h then (ts ! i)\<lparr>armed := False\<rparr> else ts ! i)"
  by (simp add: stop_def)

lemma length_stop_opt [simp]: "length (stop_opt ho ts) = length ts"
  by (cases ho) simp_all

lemma nth_stop_opt:
  "i < length ts \<Longrightarrow>
     stop_opt ho ts ! i = (if ho = Some i then (ts ! i)\<lparr>armed := False\<rparr> else ts ! i)"
  by (cases ho) (auto simp: nth_stop)

lemma length_stop_each [simp]: "length (stop_each hs ts) = length ts"
  by (induction hs arbitrary: ts) simp_all

lemma nth_stop_each:
  "i < length ts \<Longrightarrow>
     stop_each hs ts ! i = (if i \<in> set hs then (ts ! i)\<lparr>armed := False\<rparr> else ts ! i)"
  by (induction hs arbitrary: ts) (auto simp: nth_stop)

lemma length_clear_jobs [simp]: "length (clear_jobs r ts) = length ts"
  by (simp add: clear_jobs_def)

lemma nth_clear_jobs:
  "i < length ts \<Longrightarrow>
     clear_jobs r ts ! i =
       (if i \<in> set (handles_of r) then (ts ! i)\<lparr>armed := False\<rparr> else ts ! i)"
  by (auto simp: clear_jobs_def handles_of_def nth_stop_each nth_stop_opt split: option.splits)

lemma filter_eq_nth:
  assumes "length xs = length ys"
    and "\<And>i. i < length xs \<Longrightarrow> P (xs ! i) = P (ys ! i)"
    and "\<And>i. i < length xs \<Longrightarrow> P (xs ! i) \<Longrightarrow> xs ! i = ys ! i"
  shows "filter P xs = filter P ys"
  using assms
proof (induction xs ys rule: list_induct2)
  case Nil
  then show ?case by simp
next
  case (Cons x xs y ys)
  have head: "P x = P y" "P x \<Longrightarrow> x = y"
    using Cons.prems(1) [of 0] Cons.prems(2) [of 0] by simp_all
  have tail: "filter P xs = filter P ys"
  proof (rule Cons.IH)
    fix i assume "i < length xs"
    then show "P (xs ! i) = P (ys ! i)" using Cons.prems(1) [of "Suc i"] by simp
  next
    fix i assume "i < length xs" "P (xs ! i)"
    then show "xs ! i = ys ! i" using Cons.prems(2) [of "Suc i"] by simp
  qed
  show ?case using head tail by auto
qed

lemma triggers_clear_previous:
  "triggers (clear_previous rid s) =
     (case runtimeJobs s rid of None \<Rightarrow> triggers s | Some old \<Rightarrow> clear_jobs old (triggers s))"
  by (simp add: clear_previous_def split: option.splits)

lemma runtimeJobs_clear_previous:
  "runtimeJobs (clear_previous rid s) = (runtimeJobs s)(rid \<mapsto> fresh_jobs)"
  by (simp add: clear_previous_def split: option.splits)

lemma rest_clear_previous [simp]:
  "subscriptions (clear_previous rid s) = subscriptions s"
  "sub_file (clear_previous rid s) = sub_file s"
  "pushes (clear_previous rid s) = pushes s"
  "length (triggers (clear_previous rid s)) = length (triggers s)"
  by (simp_all add: clear_previous_def split: option.splits)

lemma trackedD1:
  "tracked s \<Longrightarrow> h < length (triggers s) \<Longrightarrow> armed (triggers s ! h) \<Longrightarrow>
     \<exists>r. runtimeJobs s (owner (triggers s ! h)) = Some r \<and> h \<in> set (handles_of r)"
  unfolding tracked_def by blast

lemma trackedD2:
  "tracked s \<Longrightarrow> runtimeJobs s rid = Some r \<Longrightarrow> h \<in> set (handles_of r) \<Longrightarrow>
     h < length (triggers s) \<and> owner (triggers s ! h) = rid"
  unfolding tracked_def by blast

lemma nth_clear_previous:
  assumes "i < length (triggers s)"
  shows "owner (triggers (clear_previous rid s) ! i) = owner (triggers s ! i)"
    and "armed (triggers (clear_previous rid s) ! i) =
           (armed (triggers s ! i) \<and>
            (case runtimeJobs s rid of None \<Rightarrow> True | Some old \<Rightarrow> i \<notin> set (handles_of old)))"
    and "armed (triggers (clear_previous rid s) ! i) \<Longrightarrow>
           triggers (clear_previous rid s) ! i = triggers s ! i"
  using assms
  by (auto simp: triggers_clear_previous nth_clear_jobs split: option.splits if_splits)

lemma armed_of_clear_same:
  assumes "tracked s"
  shows "armed_of rid (clear_previous rid s) = []"
proof -
  have "\<not> (owner t = rid \<and> armed t)" if "t \<in> set (triggers (clear_previous rid s))" for t
  proof
    assume oa: "owner t = rid \<and> armed t"
    from that obtain i where i0: "i < length (triggers (clear_previous rid s))"
        and i1: "triggers (clear_previous rid s) ! i = t"
      by (metis in_set_conv_nth)
    from i0 have i: "i < length (triggers s)" by simp
    have own: "owner (triggers s ! i) = rid"
      using nth_clear_previous(1) [OF i, of rid] i1 oa by simp
    have arm: "armed (triggers s ! i)"
      and out: "(case runtimeJobs s rid of None \<Rightarrow> True | Some old \<Rightarrow> i \<notin> set (handles_of old))"
      using nth_clear_previous(2) [OF i, of rid] i1 oa by simp_all
    from trackedD1 [OF assms i arm] own obtain r
      where "runtimeJobs s rid = Some r" "i \<in> set (handles_of r)" by auto
    with out show False by simp
  qed
  then show ?thesis
    by (simp add: armed_of_def filter_empty_conv)
qed

lemma armed_of_clear_other:
  assumes "tracked s" "k \<noteq> rid"
  shows "armed_of k (clear_previous rid s) = armed_of k s"
  unfolding armed_of_def
proof (rule filter_eq_nth)
  show "length (triggers (clear_previous rid s)) = length (triggers s)" by simp
next
  fix i assume "i < length (triggers (clear_previous rid s))"
  then have i: "i < length (triggers s)" by simp
  have "i \<notin> set (handles_of old)" if "runtimeJobs s rid = Some old" "owner (triggers s ! i) = k" for old
    using trackedD2 [OF assms(1) that(1), of i] that(2) assms(2) by auto
  then show "(owner (triggers (clear_previous rid s) ! i) = k \<and> armed (triggers (clear_previous rid s) ! i))
           = (owner (triggers s ! i) = k \<and> armed (triggers s ! i))"
    unfolding nth_clear_previous(1) [OF i] nth_clear_previous(2) [OF i]
    by (cases "runtimeJobs s rid") auto
next
  fix i assume "i < length (triggers (clear_previous rid s))"
    and "owner (triggers (clear_previous rid s) ! i) = k \<and> armed (triggers (clear_previous rid s) ! i)"
  then show "triggers (clear_previous rid s) ! i = triggers s ! i"
    using nth_clear_previous(3) [of i s rid] by simp
qed

lemma tracked_clear_previous:
  assumes "tracked s"
  shows "tracked (clear_previous rid s)"
  unfolding tracked_def
proof (intro conjI allI impI)
  fix h
  assume a: "h < length (triggers (clear_previous rid s)) \<and> armed (triggers (clear_previous rid s) ! h)"
  then have h: "h < length (triggers s)" by simp
  have arm: "armed (triggers s ! h)"
    and out: "(case runtimeJobs s rid of None \<Rightarrow> True | Some old \<Rightarrow> h \<notin> set (handles_of old))"
    using nth_clear_previous(2) [OF h, of rid] a by simp_all
  from trackedD1 [OF assms h arm] obtain r
    where r: "runtimeJobs s (owner (triggers s ! h)) = Some r" "h \<in> set (handles_of r)" by auto
  have "owner (triggers s ! h) \<noteq> rid"
    using r out by auto
  with r show "\<exists>r. runtimeJobs (clear_previous rid s) (owner (triggers (clear_previous rid s) ! h)) = Some r
                  \<and> h \<in> set (handles_of r)"
    by (simp add: runtimeJobs_clear_previous nth_clear_previous(1) [OF h])
next
  fix k r h
  assume a: "runtimeJobs (clear_previous rid s) k = Some r \<and> h \<in> set (handles_of r)"
  have "k \<noteq> rid"
  proof
    assume "k = rid"
    with a have "r = fresh_jobs" by (simp add: runtimeJobs_clear_previous)
    with a show False by (simp add: fresh_jobs_def handles_of_def)
  qed
  with a have "runtimeJobs s k = Some r" by (simp add: runtimeJobs_clear_previous)
  from trackedD2 [OF assms this, of h] a
  have h: "h < length (triggers s)" and o: "owner (triggers s ! h) = k" by simp_all
  show "h < length (triggers (clear_previous rid s))" using h by simp
  show "owner (triggers (clear_previous rid s) ! h) = k"
    using o by (simp add: nth_clear_previous(1) [OF h])
qed

subsection \<open>Arming triggers\<close>

lemma grown_refl: "runtimeJobs s rid = Some r \<Longrightarrow> grown rid s s []"
  by (simp add: grown_def)

lemma grown_trans:
  assumes "grown rid s s' D" "grown rid s' s'' D'"
  shows "grown rid s s'' (D @ D')"
proof -
  from assms(1) obtain r r' where 1: "runtimeJobs s rid = Some r" "runtimeJobs s' rid = Some r'"
    "lastSentAt r' = lastSentAt r"
    "set (handles_of r') = set (handles_of r) \<union> {length (triggers s) ..< length (triggers s) + length D}"
    unfolding grown_def by blast
  from assms(2) 1(2) obtain r'' where 2: "runtimeJobs s'' rid = Some r''"
    "lastSentAt r'' = lastSentAt r'"
    "set (handles_of r'') = set (handles_of r') \<union> {length (triggers s') ..< length (triggers s') + length D'}"
    unfolding grown_def by auto
  have len: "length (triggers s') = length (triggers s) + length D"
    using assms(1) by (simp add: grown_def)
  have "set (handles_of r'') =
          set (handles_of r) \<union> {length (triggers s) ..< length (triggers s) + length (D @ D')}"
    unfolding 2(3) 1(4) len by auto
  with 1 2 assms show ?thesis
    unfolding grown_def by simp
qed

lemma grown_tracked:
  assumes "tracked s" "grown rid s s' D"
  shows "tracked s'"
proof -
  from assms(2) obtain r r' where e: "runtimeJobs s rid = Some r" "runtimeJobs s' rid = Some r'"
    "set (handles_of r') = set (handles_of r) \<union> {length (triggers s) ..< length (triggers s) + length D}"
    unfolding grown_def by blast
  have ts: "triggers s' = triggers s @ D" and other: "\<And>k. k \<noteq> rid \<Longrightarrow> runtimeJobs s' k = runtimeJobs s k"
    and own: "\<And>t. t \<in> set D \<Longrightarrow> owner t = rid"
    using assms(2) by (simp_all add: grown_def list_all_iff)
  show ?thesis
    unfolding tracked_def
  proof (intro conjI allI impI)
    fix h assume a: "h < length (triggers s') \<and> armed (triggers s' ! h)"
    show "\<exists>r. runtimeJobs s' (owner (triggers s' ! h)) = Some r \<and> h \<in> set (handles_of r)"
    proof (cases "h < length (triggers s)")
      case True
      then have same: "triggers s' ! h = triggers s ! h" by (simp add: ts nth_append)
      with a have "armed (triggers s ! h)" by simp
      from trackedD1 [OF assms(1) True this] obtain q
        where q: "runtimeJobs s (owner (triggers s ! h)) = Some q" "h \<in> set (handles_of q)" by auto
      show ?thesis
      proof (cases "owner (triggers s ! h) = rid")
        case True
        with q e have "q = r" by simp
        with q e True same show ?thesis by simp
      next
        case False
        with q other same show ?thesis by simp
      qed
    next
      case False
      with a have "h \<in> {length (triggers s) ..< length (triggers s) + length D}"
        by (simp add: ts)
      moreover have "triggers s' ! h \<in> set D"
        using False a by (auto simp: ts nth_append intro!: nth_mem)
      ultimately show ?thesis using e own by simp
    qed
  next
    fix k q h
    assume a: "runtimeJobs s' k = Some q \<and> h \<in> set (handles_of q)"
    have "h < length (triggers s') \<and> owner (triggers s' ! h) = k"
    proof (cases "k = rid")
      case True
      with a e have hh: "h \<in> set (handles_of r) \<or> h \<in> {length (triggers s) ..< length (triggers s) + length D}"
        by auto
      show ?thesis
      proof (cases "h < length (triggers s)")
        case lt: True
        with hh have "h \<in> set (handles_of r)" by auto
        from trackedD2 [OF assms(1) e(1) this] True show ?thesis
          by (simp add: ts nth_append)
      next
        case ge: False
        have "h \<notin> set (handles_of r)"
          using trackedD2 [OF assms(1) e(1), of h] ge by auto
        with hh have r: "h < length (triggers s) + length D" by auto
        with ge have "triggers s' ! h \<in> set D" by (auto simp: ts nth_append intro!: nth_mem)
        with own True r show ?thesis by (simp add: ts)
      qed
    next
      case False
      with a other have "runtimeJobs s k = Some q" by simp
      from trackedD2 [OF assms(1) this, of h] a show ?thesis
        by (simp add: ts nth_append)
    qed
    then show "h < length (triggers s')" "owner (triggers s' ! h) = k" by simp_all
  qed
qed

lemma grown_armed_same: "grown rid s s' D \<Longrightarrow> armed_of rid s' = armed_of rid s @ D"
  by (auto simp: grown_def armed_of_def list_all_iff filter_id_conv)

lemma grown_armed_other: "grown rid s s' D \<Longrightarrow> k \<noteq> rid \<Longrightarrow> armed_of k s' = armed_of k s"
  by (auto simp: grown_def armed_of_def list_all_iff filter_empty_conv)

lemma grown_arm:
  assumes "runtimeJobs s rid = Some r" "owner t = rid" "armed t"
    and "set (handles_of (f r)) = insert (length (triggers s)) (set (handles_of r))"
    and "lastSentAt (f r) = lastSentAt r"
  shows "grown rid s (upd_jobs rid f (snd (arm t s))) [t]"
  using assms by (simp add: grown_def upd_jobs_def arm_def)

subsection \<open>The result of scheduleFor\<close>

lemma schedule_launch_grown:
  assumes "runtimeJobs s rid = Some r" "launchTimer r = None" "launchCron r = None"
  shows "grown rid s (snd (schedule_launch h now rid it sb tz s)) (launch_part h now rid it sb tz)"
  using assms
  by (auto simp: schedule_launch_def launch_part_def launch_delay_def grown_def upd_jobs_def
        arm_def handles_of_def Let_def split: option.splits)

lemma schedule_launch_thrown:
  "fst (schedule_launch h now rid it sb tz s) =
     (if launch_accepted h now it tz then None else Some CronError)"
  by (auto simp: schedule_launch_def launch_accepted_def launch_delay_def Let_def
        split: option.splits prod.splits)

lemma daily_loop_grown:
  assumes "runtimeJobs s rid = Some r"
  shows "grown rid s (snd (daily_loop h rid sb tz xs s))
           (map (daily_trigger rid sb tz)
              (List.map_filter parse_entry (takeWhile (entry_passes h tz) xs)))"
  using assms
proof (induction xs arbitrary: s r)
  case Nil
  then show ?case
    by (simp add: List.map_filter_simps grown_refl)
next
  case (Cons x xs)
  show ?case
  proof (cases x)
    case NotString
    with Cons.prems show ?thesis
      by (simp add: List.map_filter_simps grown_refl)
  next
    case (JString hhmm)
    show ?thesis
    proof (cases "parse_hhmm hhmm")
      case None
      from Cons.IH [OF Cons.prems] None JString show ?thesis
        by (simp add: List.map_filter_simps)
    next
      case (Some hm)
      obtain hh mm where hm: "hm = (hh, mm)" by (cases hm)
      show ?thesis
      proof (cases "cron_accepts h (daily_expr hh mm) tz")
        case False
        with Some hm JString Cons.prems show ?thesis
          by (simp add: List.map_filter_simps grown_refl)
      next
        case True
        let ?t = "daily_trigger rid sb tz (hh, mm)"
        let ?f = "\<lambda>r. r\<lparr>dailyJobs := dailyJobs r @ [length (triggers s)]\<rparr>"
        let ?s1 = "upd_jobs rid ?f (snd (arm ?t s))"
        have step: "daily_loop h rid sb tz (x # xs) s = daily_loop h rid sb tz xs ?s1"
          using Some hm True JString by (simp add: daily_trigger_def arm_def)
        have g1: "grown rid s ?s1 [?t]"
          by (rule grown_arm [OF Cons.prems])
             (simp_all add: daily_trigger_def handles_of_def)
        have e1: "runtimeJobs ?s1 rid = Some (?f r)"
          using Cons.prems by (simp add: upd_jobs_def arm_def)
        have tw: "List.map_filter parse_entry (takeWhile (entry_passes h tz) (x # xs)) =
                    (hh, mm) # List.map_filter parse_entry (takeWhile (entry_passes h tz) xs)"
          using Some hm True JString by (simp add: List.map_filter_simps)
        from grown_trans [OF g1 Cons.IH [OF e1]]
        show ?thesis
          unfolding step tw by simp
      qed
    qed
  qed
qed


lemma scheduleFor_absent:
  assumes "map_of (subscriptions s) rid = None \<or>
           (\<exists>it. map_of (subscriptions s) rid = Some it \<and> subscription it = None)"
  shows "scheduleFor h now rid s = (None, clear_previous rid s)"
  using assms by (auto simp: scheduleFor_def)


lemma scheduleFor_grown:
  assumes "map_of (subscriptions s) rid = Some it" "subscription it = Some sb"
  shows "grown rid (clear_previous rid s) (snd (scheduleFor h now rid s))
           (launch_part h now rid it sb (effective_tz it) @
            daily_part h now rid it sb (effective_tz it))"
proof -
  let ?s1 = "clear_previous rid s"
  let ?tz = "effective_tz it"
  obtain e s2 where L: "schedule_launch h now rid it sb ?tz ?s1 = (e, s2)"
    by (cases "schedule_launch h now rid it sb ?tz ?s1")
  have e1: "runtimeJobs ?s1 rid = Some fresh_jobs"
    by (simp add: runtimeJobs_clear_previous)
  have "grown rid ?s1 (snd (schedule_launch h now rid it sb ?tz ?s1)) (launch_part h now rid it sb ?tz)"
    by (rule schedule_launch_grown [OF e1]) (simp_all add: fresh_jobs_def)
  then have gL: "grown rid ?s1 s2 (launch_part h now rid it sb ?tz)"
    by (simp add: L)
  then obtain r2 where e2: "runtimeJobs s2 rid = Some r2"
    unfolding grown_def by blast
  have thr: "e = (if launch_accepted h now it ?tz then None else Some CronError)"
    using schedule_launch_thrown [of h now rid it sb ?tz ?s1] by (simp add: L)
  show ?thesis
  proof (cases "launch_accepted h now it ?tz")
    case False
    with thr have "scheduleFor h now rid s = (Some CronError, s2)"
      using assms L by (simp add: scheduleFor_def)
    with gL False show ?thesis
      by (simp add: daily_part_def)
  next
    case True
    with thr have eN: "e = None" by simp
    show ?thesis
    proof (cases "dailyTimes it")
      case (Times xs)
      have sf: "scheduleFor h now rid s = daily_loop h rid sb ?tz xs s2"
        using assms Times L eN by (simp add: scheduleFor_def)
      have dp: "daily_part h now rid it sb ?tz =
                  map (daily_trigger rid sb ?tz)
                    (List.map_filter parse_entry (takeWhile (entry_passes h ?tz) xs))"
        using True Times by (simp add: daily_part_def daily_entries_def)
      from grown_trans [OF gL daily_loop_grown [OF e2, of h sb ?tz xs]] show ?thesis
        unfolding sf dp .
    next
      case Absent
      then have sf: "scheduleFor h now rid s = (None, s2)"
        using assms L eN by (simp add: scheduleFor_def)
      with gL Absent show ?thesis
        by (simp add: daily_part_def daily_entries_def List.map_filter_simps)
    next
      case NotArray
      then have sf: "scheduleFor h now rid s = (None, s2)"
        using assms L eN by (simp add: scheduleFor_def)
      with gL NotArray show ?thesis
        by (simp add: daily_part_def daily_entries_def List.map_filter_simps)
    qed
  qed
qed

lemma scheduleFor_cases:
  obtains D where "grown rid (clear_previous rid s) (snd (scheduleFor h now rid s)) D"
proof (cases "map_of (subscriptions s) rid")
  case None
  then have "scheduleFor h now rid s = (None, clear_previous rid s)"
    by (simp add: scheduleFor_absent)
  then have "grown rid (clear_previous rid s) (snd (scheduleFor h now rid s)) []"
    by (simp add: grown_refl runtimeJobs_clear_previous)
  then show ?thesis by (rule that)
next
  case (Some it)
  show ?thesis
  proof (cases "subscription it")
    case None
    with Some have "scheduleFor h now rid s = (None, clear_previous rid s)"
      by (simp add: scheduleFor_absent)
    then have "grown rid (clear_previous rid s) (snd (scheduleFor h now rid s)) []"
      by (simp add: grown_refl runtimeJobs_clear_previous)
    then show ?thesis by (rule that)
  next
    case (Some sb)
    from scheduleFor_grown [OF \<open>map_of (subscriptions s) rid = Some it\<close> Some, of h now]
    show ?thesis by (rule that)
  qed
qed

lemma scheduleFor_store [simp]:
  "subscriptions (snd (scheduleFor h now rid s)) = subscriptions s"
  "sub_file (snd (scheduleFor h now rid s)) = sub_file s"
  "pushes (snd (scheduleFor h now rid s)) = pushes s"
proof -
  obtain D where "grown rid (clear_previous rid s) (snd (scheduleFor h now rid s)) D"
    by (rule scheduleFor_cases)
  then show "subscriptions (snd (scheduleFor h now rid s)) = subscriptions s"
    "sub_file (snd (scheduleFor h now rid s)) = sub_file s"
    "pushes (snd (scheduleFor h now rid s)) = pushes s"
    by (simp_all add: grown_def)
qed

lemma scheduleFor_tracked:
  assumes "tracked s"
  shows "tracked (snd (scheduleFor h now rid s))"
proof -
  obtain D where "grown rid (clear_previous rid s) (snd (scheduleFor h now rid s)) D"
    by (rule scheduleFor_cases)
  with tracked_clear_previous [OF assms] show ?thesis
    by (rule grown_tracked)
qed

lemma scheduleFor_other:
  assumes "tracked s" "k \<noteq> rid"
  shows "armed_of k (snd (scheduleFor h now rid s)) = armed_of k s"
proof -
  obtain D where "grown rid (clear_previous rid s) (snd (scheduleFor h now rid s)) D"
    by (rule scheduleFor_cases)
  from grown_armed_other [OF this assms(2)] armed_of_clear_other [OF assms]
  show ?thesis by simp
qed

lemma scheduleFor_other_jobs:
  assumes "k \<noteq> rid"
  shows "runtimeJobs (snd (scheduleFor h now rid s)) k = runtimeJobs s k"
proof -
  obtain D where "grown rid (clear_previous rid s) (snd (scheduleFor h now rid s)) D"
    by (rule scheduleFor_cases)
  with assms show ?thesis
    by (simp add: grown_def runtimeJobs_clear_previous)
qed

lemma scheduleFor_armed:
  assumes "tracked s" "map_of (subscriptions s) rid = Some it" "subscription it = Some sb"
  shows "armed_of rid (snd (scheduleFor h now rid s)) =
           launch_part h now rid it sb (effective_tz it) @
           daily_part h now rid it sb (effective_tz it)"
  using grown_armed_same [OF scheduleFor_grown [OF assms(2,3), of h now]]
    armed_of_clear_same [OF assms(1)]
  by simp

lemma daily_part_pass:
  assumes "launch_accepted h now it tz" "entries_pass h tz (daily_entries it)"
  shows "daily_part h now rid it sb tz =
           map (daily_trigger rid sb tz) (List.map_filter parse_entry (daily_entries it))"
proof -
  have tw: "takeWhile (entry_passes h tz) (daily_entries it) = daily_entries it"
    using assms(2) by (simp add: entries_pass_def list_all_iff takeWhile_eq_all_conv)
  show ?thesis
    unfolding daily_part_def tw using assms(1) by simp
qed


lemma scheduleFor_armed_absent:
  assumes "tracked s"
    and "map_of (subscriptions s) rid = None \<or>
         (\<exists>it. map_of (subscriptions s) rid = Some it \<and> subscription it = None)"
  shows "armed_of rid (snd (scheduleFor h now rid s)) = []"
  using scheduleFor_absent [OF assms(2)] armed_of_clear_same [OF assms(1)] by simp

lemma kind_daily_trigger [simp]: "kind (daily_trigger rid sb tz hm) = DailyJob"
  by (simp add: daily_trigger_def)

lemma filter_daily_map [simp]:
  "filter (\<lambda>t. kind t = DailyJob) (map (daily_trigger rid sb tz) ys) = map (daily_trigger rid sb tz) ys"
  "filter (\<lambda>t. kind t \<noteq> DailyJob) (map (daily_trigger rid sb tz) ys) = []"
  by (induction ys) simp_all

lemma filter_daily_part [simp]:
  "filter (\<lambda>t. kind t = DailyJob) (daily_part h now rid it sb tz) = daily_part h now rid it sb tz"
  "filter (\<lambda>t. kind t \<noteq> DailyJob) (daily_part h now rid it sb tz) = []"
  by (simp_all add: daily_part_def)

lemma filter_launch_part [simp]:
  "filter (\<lambda>t. kind t = DailyJob) (launch_part h now rid it sb tz) = []"
  "filter (\<lambda>t. kind t \<noteq> DailyJob) (launch_part h now rid it sb tz) = launch_part h now rid it sb tz"
  by (simp_all add: launch_part_def split: option.splits)

lemma tracked_cong:
  "triggers s' = triggers s \<Longrightarrow> runtimeJobs s' = runtimeJobs s \<Longrightarrow> tracked s' = tracked s"
  by (simp add: tracked_def)



lemma sendPushSafely_returns: "\<exists>res. sendPushSafely net sb p = Inr res"
  by (cases "net sb p") (simp_all add: sendPushSafely_def try_catch_def)

subsection \<open>The entry of runtimeJobs after scheduleFor\<close>

lemma daily_loop_entry:
  assumes "runtimeJobs s rid = Some r"
  shows "\<exists>r'. runtimeJobs (snd (daily_loop h rid sb tz xs s)) rid = Some r' \<and>
              launchTimer r' = launchTimer r \<and> launchCron r' = launchCron r"
  using assms
proof (induction xs arbitrary: s r)
  case Nil
  then show ?case by simp
next
  case (Cons x xs)
  show ?case
  proof (cases x)
    case NotString
    with Cons.prems show ?thesis by simp
  next
    case (JString hhmm)
    show ?thesis
    proof (cases "parse_hhmm hhmm")
      case None
      with Cons.IH [OF Cons.prems] JString show ?thesis by simp
    next
      case (Some hm)
      obtain hh mm where hm: "hm = (hh, mm)" by (cases hm)
      show ?thesis
      proof (cases "cron_accepts h (daily_expr hh mm) tz")
        case False
        with Some hm JString Cons.prems show ?thesis by simp
      next
        case True
        let ?t = "daily_trigger rid sb tz (hh, mm)"
        let ?f = "\<lambda>r. r\<lparr>dailyJobs := dailyJobs r @ [length (triggers s)]\<rparr>"
        let ?s1 = "upd_jobs rid ?f (snd (arm ?t s))"
        have step: "daily_loop h rid sb tz (x # xs) s = daily_loop h rid sb tz xs ?s1"
          using Some hm True JString by (simp add: daily_trigger_def arm_def)
        have e1: "runtimeJobs ?s1 rid = Some (?f r)"
          using Cons.prems by (simp add: upd_jobs_def arm_def)
        from Cons.IH [OF e1] show ?thesis
          unfolding step by simp
      qed
    qed
  qed
qed

lemma schedule_launch_entry:
  assumes "runtimeJobs s rid = Some r"
  shows "\<exists>r'. runtimeJobs (snd (schedule_launch h now rid it sb tz s)) rid = Some r' \<and>
          launchTimer r' =
            (case launch_delay h now it of
               Some d \<Rightarrow> if 0 < d \<and> d < 2147483647 then Some (length (triggers s))
                         else launchTimer r
             | None \<Rightarrow> launchTimer r) \<and>
          launchCron r' =
            (case launch_delay h now it of
               Some d \<Rightarrow> if 2147483647 \<le> d \<and> cron_accepts h (launch_expr h (d + now)) tz
                         then Some (length (triggers s)) else launchCron r
             | None \<Rightarrow> launchCron r)"
  using assms
  by (auto simp: schedule_launch_def launch_delay_def upd_jobs_def arm_def Let_def
        split: option.splits)

lemma scheduleFor_entry:
  assumes "map_of (subscriptions s) rid = Some it" "subscription it = Some sb"
  shows "\<exists>r'. runtimeJobs (snd (scheduleFor h now rid s)) rid = Some r' \<and>
          launchTimer r' =
            (case launch_delay h now it of
               Some d \<Rightarrow> if 0 < d \<and> d < 2147483647 then Some (length (triggers s)) else None
             | None \<Rightarrow> None) \<and>
          launchCron r' =
            (case launch_delay h now it of
               Some d \<Rightarrow> if 2147483647 \<le> d \<and>
                            cron_accepts h (launch_expr h (d + now)) (effective_tz it)
                         then Some (length (triggers s)) else None
             | None \<Rightarrow> None)"
proof -
  let ?s1 = "clear_previous rid s"
  let ?tz = "effective_tz it"
  obtain e s2 where L: "schedule_launch h now rid it sb ?tz ?s1 = (e, s2)"
    by (cases "schedule_launch h now rid it sb ?tz ?s1")
  have e1: "runtimeJobs ?s1 rid = Some fresh_jobs"
    by (simp add: runtimeJobs_clear_previous)
  from schedule_launch_entry [OF e1, of h now it sb ?tz] L
  obtain r2 where r2: "runtimeJobs s2 rid = Some r2"
    "launchTimer r2 =
            (case launch_delay h now it of
               Some d \<Rightarrow> if 0 < d \<and> d < 2147483647 then Some (length (triggers s)) else None
             | None \<Rightarrow> None)"
    "launchCron r2 =
            (case launch_delay h now it of
               Some d \<Rightarrow> if 2147483647 \<le> d \<and> cron_accepts h (launch_expr h (d + now)) ?tz
                         then Some (length (triggers s)) else None
             | None \<Rightarrow> None)"
    by (auto simp: fresh_jobs_def split: option.splits)
  show ?thesis
  proof (cases e)
    case (Some err)
    then have "scheduleFor h now rid s = (Some err, s2)"
      using assms L by (simp add: scheduleFor_def)
    with r2 show ?thesis by simp
  next
    case None
    show ?thesis
    proof (cases "dailyTimes it")
      case (Times xs)
      have sf: "scheduleFor h now rid s = daily_loop h rid sb ?tz xs s2"
        using assms Times L None by (simp add: scheduleFor_def)
      from daily_loop_entry [OF r2(1), of h sb ?tz xs] r2(2,3) show ?thesis
        unfolding sf by auto
    next
      case Absent
      then have "scheduleFor h now rid s = (None, s2)"
        using assms L None by (simp add: scheduleFor_def)
      with r2 show ?thesis by simp
    next
      case NotArray
      then have "scheduleFor h now rid s = (None, s2)"
        using assms L None by (simp add: scheduleFor_def)
      with r2 show ?thesis by simp
    qed
  qed
qed

lemma scheduleFor_triggers:
  assumes "map_of (subscriptions s) rid = Some it" "subscription it = Some sb"
  shows "\<exists>dailies. triggers (snd (scheduleFor h now rid s)) =
            triggers (clear_previous rid s) @ launch_part h now rid it sb (effective_tz it) @ dailies"
  using scheduleFor_grown [OF assms, of h now]
  by (auto simp: grown_def)

subsection \<open>rescheduleAll\<close>

lemma reschedule_keys_tracked:
  "tracked s \<Longrightarrow> tracked (reschedule_keys h clock ids s)"
  by (induction ids arbitrary: s) (simp_all add: scheduleFor_tracked)

lemma reschedule_keys_store [simp]:
  "subscriptions (reschedule_keys h clock ids s) = subscriptions s"
  "sub_file (reschedule_keys h clock ids s) = sub_file s"
  "pushes (reschedule_keys h clock ids s) = pushes s"
  by (induction ids arbitrary: s) simp_all

lemma reschedule_keys_other:
  "tracked s \<Longrightarrow> k \<notin> set ids \<Longrightarrow> armed_of k (reschedule_keys h clock ids s) = armed_of k s"
  by (induction ids arbitrary: s) (simp_all add: scheduleFor_tracked scheduleFor_other)

lemma reschedule_keys_last:
  assumes "tracked s" "k \<in> set ids"
  shows "\<exists>s0. tracked s0 \<and> subscriptions s0 = subscriptions s \<and>
              armed_of k (reschedule_keys h clock ids s) =
                armed_of k (snd (scheduleFor h (clock k) k s0))"
  using assms
proof (induction ids arbitrary: s)
  case Nil
  then show ?case by simp
next
  case (Cons i rest)
  let ?s1 = "snd (scheduleFor h (clock i) i s)"
  have t1: "tracked ?s1" using Cons.prems(1) by (rule scheduleFor_tracked)
  show ?case
  proof (cases "k \<in> set rest")
    case True
    from Cons.IH [OF t1 True] show ?thesis by simp
  next
    case False
    with Cons.prems(2) have ki: "k = i" by simp
    from reschedule_keys_other [OF t1 False, of h clock]
    have "armed_of k (reschedule_keys h clock (i # rest) s) = armed_of k (snd (scheduleFor h (clock k) k s))"
      by (simp add: ki)
    with Cons.prems(1) show ?thesis by blast
  qed
qed

lemma rescheduleAll_armed:
  assumes "tracked s" "map_of (subscriptions s) rid = Some it" "subscription it = Some sb"
  shows "armed_of rid (rescheduleAll h clock s) =
           launch_part h (clock rid) rid it sb (effective_tz it) @
           daily_part h (clock rid) rid it sb (effective_tz it)"
proof -
  have "rid \<in> set (map fst (subscriptions s))"
    using assms(2) by (auto dest!: map_of_SomeD intro: rev_image_eqI)
  from reschedule_keys_last [OF assms(1) this, of h clock] obtain s0
    where s0: "tracked s0" "subscriptions s0 = subscriptions s"
      "armed_of rid (rescheduleAll h clock s) = armed_of rid (snd (scheduleFor h (clock rid) rid s0))"
    unfolding rescheduleAll_def by blast
  have m0: "map_of (subscriptions s0) rid = Some it" using assms(2) s0(2) by simp
  from scheduleFor_armed [OF s0(1) m0 assms(3), of h "clock rid"] s0(3)
  show ?thesis by simp
qed




lemma fire_launch_cron_disarms:
  assumes "n < length (triggers s)" "kind (triggers s ! n) = LaunchCron"
  shows "\<not> armed (triggers (snd (fire net t n s)) ! n)"
proof (cases "armed (triggers s ! n)")
  case False
  then show ?thesis by (simp add: fire_def)
next
  case True
  obtain res where res: "sendPushSafely net (target (triggers s ! n)) LaunchNotice = Inr res"
    using sendPushSafely_returns by blast
  show ?thesis
    using assms True res
    by (simp add: fire_def launch_cron_cb_def dispatch_def remove_record_def
          persistSubscriptions_def nth_stop Let_def)
qed

subsection \<open>Every operation keeps the bookkeeping invariant\<close>

lemma tracked_weaken:
  assumes "tracked s"
    and "length (triggers s') = length (triggers s)"
    and "\<And>i. i < length (triggers s) \<Longrightarrow> owner (triggers s' ! i) = owner (triggers s ! i)"
    and "\<And>i. i < length (triggers s) \<Longrightarrow> armed (triggers s' ! i) \<Longrightarrow> armed (triggers s ! i)"
    and "\<And>k. map_option handles_of (runtimeJobs s' k) = map_option handles_of (runtimeJobs s k)"
  shows "tracked s'"
  unfolding tracked_def
proof (intro conjI allI impI)
  fix h assume a: "h < length (triggers s') \<and> armed (triggers s' ! h)"
  then have h: "h < length (triggers s)" and ar: "armed (triggers s ! h)"
    using assms(2,4) by simp_all
  from trackedD1 [OF assms(1) h ar] obtain r
    where "runtimeJobs s (owner (triggers s ! h)) = Some r" "h \<in> set (handles_of r)" by auto
  with assms(5) [of "owner (triggers s ! h)"] assms(3) [OF h]
  show "\<exists>r. runtimeJobs s' (owner (triggers s' ! h)) = Some r \<and> h \<in> set (handles_of r)"
    by (cases "runtimeJobs s' (owner (triggers s ! h))") auto
next
  fix k r h assume a: "runtimeJobs s' k = Some r \<and> h \<in> set (handles_of r)"
  with assms(5) [of k] obtain r0 where "runtimeJobs s k = Some r0" "handles_of r0 = handles_of r"
    by (cases "runtimeJobs s k") auto
  with trackedD2 [OF assms(1) this(1), of h] a
  have "h < length (triggers s)" "owner (triggers s ! h) = k" by simp_all
  with assms(2,3) show "h < length (triggers s')" "owner (triggers s' ! h) = k" by simp_all
qed

lemma handles_of_lastSentAt [simp]: "handles_of (r\<lparr>lastSentAt := v\<rparr>) = handles_of r"
  by (simp add: handles_of_def)

lemma fire_shape:
  "length (triggers (snd (fire net t h s))) = length (triggers s) \<and>
   (\<forall>i < length (triggers s).
      (triggers (snd (fire net t h s)) ! i = triggers s ! i \<or>
       triggers (snd (fire net t h s)) ! i = (triggers s ! i)\<lparr>armed := False\<rparr>)) \<and>
   (\<forall>k. map_option handles_of (runtimeJobs (snd (fire net t h s)) k) =
        map_option handles_of (runtimeJobs s k))"
proof -
  obtain r1 r2 r3 where r:
    "sendPushSafely net (target (triggers s ! h)) LaunchNotice = Inr r1"
    "sendPushSafely net (target (triggers s ! h)) DailyReminder = Inr r3"
    using sendPushSafely_returns by blast
  show ?thesis
    using r
    by (cases "kind (triggers s ! h)")
       (auto simp: fire_def launch_timer_cb_def launch_cron_cb_def daily_cb_def dispatch_def
          remove_record_def persistSubscriptions_def nth_stop Let_def
          split: option.splits)
qed

lemma tracked_fire:
  assumes "tracked s"
  shows "tracked (snd (fire net t h s))"
proof (rule tracked_weaken [OF assms])
  show "length (triggers (snd (fire net t h s))) = length (triggers s)"
    using fire_shape [of net t h s] by simp
next
  fix i assume "i < length (triggers s)"
  then have "triggers (snd (fire net t h s)) ! i = triggers s ! i \<or>
       triggers (snd (fire net t h s)) ! i = (triggers s ! i)\<lparr>armed := False\<rparr>"
    using fire_shape [of net t h s] by simp
  then show "owner (triggers (snd (fire net t h s)) ! i) = owner (triggers s ! i)"
    and "armed (triggers (snd (fire net t h s)) ! i) \<Longrightarrow> armed (triggers s ! i)"
    by auto
next
  fix k
  show "map_option handles_of (runtimeJobs (snd (fire net t h s)) k) =
        map_option handles_of (runtimeJobs s k)"
    using fire_shape [of net t h s] by simp
qed

lemma fire_armed_subset:
  "set (armed_of rid (snd (fire net t h s))) \<subseteq> set (armed_of rid s)"
proof
  fix x assume "x \<in> set (armed_of rid (snd (fire net t h s)))"
  then have x: "x \<in> set (triggers (snd (fire net t h s)))" "owner x = rid" "armed x"
    by (simp_all add: armed_of_def)
  from x(1) obtain i where i: "i < length (triggers (snd (fire net t h s)))"
      "triggers (snd (fire net t h s)) ! i = x"
    by (metis in_set_conv_nth)
  then have il: "i < length (triggers s)" using fire_shape [of net t h s] by simp
  then have "x = triggers s ! i \<or> x = (triggers s ! i)\<lparr>armed := False\<rparr>"
    using fire_shape [of net t h s] i(2) by auto
  with x(3) have "x = triggers s ! i" by auto
  with il x(2,3) show "x \<in> set (armed_of rid s)"
    by (auto simp: armed_of_def)
qed

lemma tracked_drop_entry:
  assumes "tracked s" "runtimeJobs s rid = Some r" "handles_of r = []"
  shows "tracked (s\<lparr>runtimeJobs := (runtimeJobs s)(rid := None)\<rparr>)"
  unfolding tracked_def
proof (intro conjI allI impI)
  fix h
  assume "h < length (triggers (s\<lparr>runtimeJobs := (runtimeJobs s)(rid := None)\<rparr>)) \<and>
          armed (triggers (s\<lparr>runtimeJobs := (runtimeJobs s)(rid := None)\<rparr>) ! h)"
  then have h: "h < length (triggers s)" and ar: "armed (triggers s ! h)" by simp_all
  from trackedD1 [OF assms(1) h ar] obtain q
    where q: "runtimeJobs s (owner (triggers s ! h)) = Some q" "h \<in> set (handles_of q)" by auto
  with assms(2,3) have "owner (triggers s ! h) \<noteq> rid" by auto
  with q show "\<exists>q. runtimeJobs (s\<lparr>runtimeJobs := (runtimeJobs s)(rid := None)\<rparr>)
                    (owner (triggers (s\<lparr>runtimeJobs := (runtimeJobs s)(rid := None)\<rparr>) ! h)) = Some q \<and>
                  h \<in> set (handles_of q)"
    by simp
next
  fix k q h
  assume a: "runtimeJobs (s\<lparr>runtimeJobs := (runtimeJobs s)(rid := None)\<rparr>) k = Some q \<and>
             h \<in> set (handles_of q)"
  then have "runtimeJobs s k = Some q" by (simp split: if_splits)
  from trackedD2 [OF assms(1) this, of h] a
  show "h < length (triggers (s\<lparr>runtimeJobs := (runtimeJobs s)(rid := None)\<rparr>))"
    and "owner (triggers (s\<lparr>runtimeJobs := (runtimeJobs s)(rid := None)\<rparr>) ! h) = k"
    by simp_all
qed

lemma tracked_unsubscribe:
  assumes "tracked s"
  shows "tracked (snd (unsubscribe req s))"
proof (cases "or_else (body_id req) (query_id req)")
  case None
  with assms show ?thesis by (simp add: unsubscribe_def)
next
  case (Some rid)
  show ?thesis
  proof (cases "rid = [] \<or> \<not> has_property (map_of (subscriptions s)) rid")
    case True
    with Some assms show ?thesis by (auto simp: unsubscribe_def)
  next
    case False
    then have known: "\<not> (rid = [] \<or> \<not> has_property (map_of (subscriptions s)) rid)"
      by simp
    show ?thesis
    proof (cases "runtimeJobs s rid")
      case None
      have "tracked (remove_record rid s) = tracked s"
        by (rule tracked_cong) (simp_all add: remove_record_def persistSubscriptions_def)
      with Some known None assms show ?thesis
        by (simp add: unsubscribe_def)
    next
      case (Some old)
      let ?c = "clear_previous rid s"
      let ?s1 = "s\<lparr>triggers := clear_jobs old (triggers s), runtimeJobs := (runtimeJobs s)(rid := None)\<rparr>"
      have "tracked (?c\<lparr>runtimeJobs := (runtimeJobs ?c)(rid := None)\<rparr>)"
        by (rule tracked_drop_entry [where r = fresh_jobs, OF tracked_clear_previous [OF assms]])
           (simp_all add: runtimeJobs_clear_previous fresh_jobs_def handles_of_def)
      moreover have "tracked ?s1 = tracked (?c\<lparr>runtimeJobs := (runtimeJobs ?c)(rid := None)\<rparr>)"
        by (rule tracked_cong)
           (simp_all add: triggers_clear_previous runtimeJobs_clear_previous Some)
      ultimately have "tracked ?s1" by simp
      moreover have "tracked (remove_record rid ?s1) = tracked ?s1"
        by (rule tracked_cong) (simp_all add: remove_record_def persistSubscriptions_def)
      ultimately show ?thesis
        using \<open>or_else (body_id req) (query_id req) = Some rid\<close> known Some
        by (simp add: unsubscribe_def)
    qed
  qed
qed

lemma tracked_subscribe:
  assumes "tracked s"
  shows "tracked (snd (subscribe h new_id t0 t1 body s))"
proof (cases "b_subscription body")
  case None
  with assms show ?thesis by (simp add: subscribe_def)
next
  case (Some sb)
  show ?thesis
  proof (cases "truthy (endpoint sb)")
    case False
    with Some assms show ?thesis by (simp add: subscribe_def)
  next
    case True
    have "tracked (persistSubscriptions (s\<lparr>subscriptions := al\<rparr>))" for al
      using assms tracked_cong [of "persistSubscriptions (s\<lparr>subscriptions := al\<rparr>)" s]
      by (simp add: persistSubscriptions_def)
    then show ?thesis
      using Some True by (simp add: subscribe_def Let_def scheduleFor_tracked)
  qed
qed

lemma tracked_rescheduleAll: "tracked s \<Longrightarrow> tracked (rescheduleAll h clock s)"
  by (simp add: rescheduleAll_def reschedule_keys_tracked)

subsection \<open>What a fire answered with 410 or 404 does, and what it leaves\<close>

lemma fire_touches_only_its_trigger:
  assumes "i < length (triggers s)" "i \<noteq> h"
  shows "triggers (snd (fire net t h s)) ! i = triggers s ! i"
proof -
  obtain r1 r3 where r:
    "sendPushSafely net (target (triggers s ! h)) LaunchNotice = Inr r1"
    "sendPushSafely net (target (triggers s ! h)) DailyReminder = Inr r3"
    using sendPushSafely_returns by blast
  show ?thesis
    using r assms
    by (cases "kind (triggers s ! h)")
       (auto simp: fire_def launch_timer_cb_def launch_cron_cb_def daily_cb_def dispatch_def
          remove_record_def persistSubscriptions_def nth_stop Let_def
          split: option.splits)
qed

lemma fire_gone_removes_record:
  assumes "tracked s" "h < length (triggers s)" "armed (triggers s ! h)"
    and "net (target (triggers s ! h)) p = Inl e" "p = (if kind (triggers s ! h) = DailyJob then DailyReminder else LaunchNotice)"
    and "statusCode e = Some 410 \<or> statusCode e = Some 404"
  shows "map_of (subscriptions (snd (fire net t h s))) (owner (triggers s ! h)) = None \<and>
         sub_file (snd (fire net t h s)) = subscriptions (snd (fire net t h s)) \<and>
         fst (fire net t h s) = None"
proof -
  from trackedD1 [OF assms(1-3)] obtain r
    where r: "runtimeJobs s (owner (triggers s ! h)) = Some r" by blast
  have te: "truthy_err e" using assms(6) by (cases e) auto
  have send: "sendPushSafely net (target (triggers s ! h)) p = Inr Removed"
    using assms(4,6) te by (simp add: sendPushSafely_def try_catch_def)
  show ?thesis
    using assms(2,3,5) r send
    by (cases "kind (triggers s ! h)")
       (simp_all add: fire_def launch_timer_cb_def launch_cron_cb_def daily_cb_def dispatch_def
          remove_record_def persistSubscriptions_def Let_def AList.delete_conv')
qed

subsection \<open>What a daily fire dispatches\<close>




lemma target_daily_trigger [simp]: "target (daily_trigger rid sb tz hm) = sb"
  by (simp add: daily_trigger_def)

subsection \<open>What holds of the parts of the claims that are right\<close>

text \<open>
  Every cron job that \<^verbatim>\<open>scheduleFor\<close> leaves armed for a record, each daily job and the
  launch job alike, carries the record's stored timezone (the default Africa/Nairobi when
  none is stored); the only armed trigger without it is the launch timer.
\<close>

lemma cron_triggers_carry_stored_zone:
  assumes "tracked s" and "map_of (subscriptions s) rid = Some it"
    and "subscription it = Some sb"
  shows "list_all (\<lambda>t. kind t = LaunchTimer \<or> zone_of (timing t) = Some (effective_tz it))
           (armed_of rid (snd (scheduleFor h now rid s)))"
  unfolding scheduleFor_armed [OF assms]
  by (auto simp: launch_part_def daily_part_def daily_trigger_def list_all_iff
        split: option.splits if_splits)

text \<open>
  A launch at least 2147483647 ms ahead by the host's reading is a cron job in the stored
  timezone whose minute, hour, day and month are the local fields the host reads from the
  launch date, and it is no longer armed after it has fired once.
\<close>

lemma far_launch_is_cron_and_disarms:
  assumes "map_of (subscriptions s) rid = Some it" and "subscription it = Some sb"
    and "launch_delay h now it = Some d" and "2147483647 \<le> d"
    and "cron_accepts h (launch_expr h (d + now)) (effective_tz it)"
  shows "triggers (snd (scheduleFor h now rid s)) ! length (triggers s) =
           \<lparr>owner = rid, kind = LaunchCron, target = sb,
            timing = Cron (launch_expr h (d + now)) (effective_tz it), armed = True\<rparr> \<and>
         \<not> armed (triggers (snd (fire net t (length (triggers s))
                                  (snd (scheduleFor h now rid s)))) ! length (triggers s))"
proof -
  have lp: "launch_part h now rid it sb (effective_tz it) =
      [\<lparr>owner = rid, kind = LaunchCron, target = sb,
        timing = Cron (launch_expr h (d + now)) (effective_tz it), armed = True\<rparr>]"
    using assms(3-5) by (simp add: launch_part_def)
  from scheduleFor_triggers [OF assms(1,2), of h now] obtain dailies
    where ts: "triggers (snd (scheduleFor h now rid s)) =
            triggers (clear_previous rid s) @ launch_part h now rid it sb (effective_tz it) @ dailies"
    by blast
  then have nth: "triggers (snd (scheduleFor h now rid s)) ! length (triggers s) =
          \<lparr>owner = rid, kind = LaunchCron, target = sb,
           timing = Cron (launch_expr h (d + now)) (effective_tz it), armed = True\<rparr>"
    unfolding lp by (simp add: nth_append)
  have "length (triggers s) < length (triggers (snd (scheduleFor h now rid s)))"
    unfolding ts lp by simp
  moreover have "kind (triggers (snd (scheduleFor h now rid s)) ! length (triggers s)) = LaunchCron"
    unfolding nth by simp
  ultimately have "\<not> armed (triggers (snd (fire net t (length (triggers s))
                                            (snd (scheduleFor h now rid s)))) ! length (triggers s))"
    by (rule fire_launch_cron_disarms)
  with nth show ?thesis by simp
qed

text \<open>
  When the launch date as the host reads it is not after the clock reading, the call arms
  no launch trigger, and no later fire arms one.
\<close>

lemma past_launch_by_host_reading_not_planned:
  assumes "tracked s" and "map_of (subscriptions s) rid = Some it"
    and "launchIso it = Some isoStr" and "date_parse h isoStr = Some launchDate"
    and "launchDate \<le> now"
  shows "filter (\<lambda>t. kind t \<noteq> DailyJob) (armed_of rid (snd (scheduleFor h now rid s))) = [] \<and>
         filter (\<lambda>t. kind t \<noteq> DailyJob)
           (armed_of rid (snd (fire net t k (snd (scheduleFor h now rid s))))) = []"
proof -
  have now: "filter (\<lambda>t. kind t \<noteq> DailyJob) (armed_of rid (snd (scheduleFor h now rid s))) = []"
  proof (cases "subscription it")
    case None
    with assms(2) have sf: "scheduleFor h now rid s = (None, clear_previous rid s)"
      by (simp add: scheduleFor_absent)
    show ?thesis
      unfolding sf using armed_of_clear_same [OF assms(1), of rid] by simp
  next
    case (Some sb)
    have part: "launch_part h now rid it sb (effective_tz it) = []"
      using assms(3-5) by (simp add: launch_part_def launch_delay_def)
    show ?thesis
      unfolding scheduleFor_armed [OF assms(1,2) Some] part by simp
  qed
  moreover have "filter (\<lambda>t. kind t \<noteq> DailyJob)
                 (armed_of rid (snd (fire net t k (snd (scheduleFor h now rid s))))) = []"
    using now fire_armed_subset [of rid net t k "snd (scheduleFor h now rid s)"]
    by (auto simp: filter_empty_conv)
  ultimately show ?thesis by simp
qed

text \<open>
  When no entry of a record makes \<^verbatim>\<open>scheduleFor\<close> throw, the daily triggers left armed are,
  in order, one for each entry whose hour and minute parse and none for the others, after
  \<^verbatim>\<open>scheduleFor\<close> and after \<^verbatim>\<open>rescheduleAll\<close> alike, whatever the other records are.
\<close>

lemma unparsable_entries_skipped_when_nothing_throws:
  assumes "tracked s" and "map_of (subscriptions s) rid = Some it"
    and "subscription it = Some sb"
    and "launch_accepted h (clock rid) it (effective_tz it)"
    and "entries_pass h (effective_tz it) (daily_entries it)"
  shows "filter (\<lambda>t. kind t = DailyJob) (armed_of rid (snd (scheduleFor h (clock rid) rid s))) =
           map (daily_trigger rid sb (effective_tz it))
             (List.map_filter parse_entry (daily_entries it)) \<and>
         filter (\<lambda>t. kind t = DailyJob) (armed_of rid (rescheduleAll h clock s)) =
           map (daily_trigger rid sb (effective_tz it))
             (List.map_filter parse_entry (daily_entries it)) \<and>
         subscriptions (rescheduleAll h clock s) = subscriptions s"
  unfolding scheduleFor_armed [OF assms(1-3)] rescheduleAll_armed [OF assms(1-3)]
    daily_part_pass [OF assms(4,5)]
  by (simp add: rescheduleAll_def)

section \<open>The claims\<close>

text \<open>
  Claim C9. \<^verbatim>\<open>sendPushSafely\<close> never throws to its caller, whatever the transport does, and
  its three results partition the outcomes: \<^verbatim>\<open>true\<close> exactly when the transport accepts,
  \<^verbatim>\<open>{removed: true}\<close> exactly when the value thrown carries status code 410 or 404,
  \<^verbatim>\<open>false\<close> exactly on every other throw.
\<close>

theorem C9_sendPushSafely_classifies:
  "(\<exists>r. sendPushSafely net sb p = Inr r) \<and>
   ((sendPushSafely net sb p = Inr ReturnedTrue) = (net sb p = Inr ())) \<and>
   ((sendPushSafely net sb p = Inr Removed) =
      (\<exists>e. net sb p = Inl e \<and> (statusCode e = Some 410 \<or> statusCode e = Some 404))) \<and>
   ((sendPushSafely net sb p = Inr ReturnedFalse) =
      (\<exists>e. net sb p = Inl e \<and> statusCode e \<noteq> Some 410 \<and> statusCode e \<noteq> Some 404))"
proof (cases "net sb p")
  case (Inl e)
  then show ?thesis
    by (cases e) (simp_all add: sendPushSafely_def try_catch_def)
next
  case (Inr u)
  then show ?thesis
    by (simp add: sendPushSafely_def try_catch_def)
qed

theorem C9_sendPushSafely_classifies_witness:
  "sendPushSafely net_gone sample_sub DailyReminder = Inr Removed \<and>
   sendPushSafely net_ok sample_sub DailyReminder = Inr ReturnedTrue"
  using C9_sendPushSafely_classifies [of net_gone sample_sub DailyReminder]
    C9_sendPushSafely_classifies [of net_ok sample_sub DailyReminder]
  by (simp add: net_gone_def net_ok_def)

text \<open>
  Claim C7. Loading the store never raises. \<^verbatim>\<open>readJSON\<close> returns the fallback it was given
  when the file is missing, cannot be read or does not parse; for the store the fallback is
  the empty mapping. The second variant's \<^verbatim>\<open>loadSubscriptions\<close> returns its empty store,
  the empty list, in the same three cases.
\<close>

theorem C7_load_never_raises:
  "(\<exists>v. readJSON parse f fallback = Inr v) \<and>
   (f = NoFile \<or> f = Unreadable \<or> (\<exists>raw. f = Contents raw \<and> parse raw = None)
      \<longrightarrow> readJSON parse f fallback = Inr fallback) \<and>
   (\<exists>v. load_store parse1 f = Inr v) \<and>
   (f = NoFile \<or> f = Unreadable \<or> (\<exists>raw. f = Contents raw \<and> parse1 raw = None)
      \<longrightarrow> load_store parse1 f = Inr []) \<and>
   (\<exists>v. loadSubscriptions parse2 f = Inr v) \<and>
   (f = NoFile \<or> f = Unreadable \<or> (\<exists>raw. f = Contents raw \<and> parse2 raw = None)
      \<longrightarrow> loadSubscriptions parse2 f = Inr [])"
  by (cases f)
     (auto simp: readJSON_def load_store_def loadSubscriptions_def try_catch_def JSON_parse_def
           split: option.splits)

theorem C7_load_never_raises_witness:
  "load_store Map.empty (Contents ''{ not json'') = Inr [] \<and>
   load_store Map.empty NoFile = Inr [] \<and>
   loadSubscriptions (Map.empty :: string \<Rightarrow> subscription list option) Unreadable = Inr []"
  using C7_load_never_raises [of "Map.empty :: string \<Rightarrow> nat option" "Contents ''{ not json''" 0
          Map.empty "Map.empty :: string \<Rightarrow> subscription list option"]
    C7_load_never_raises [of "Map.empty :: string \<Rightarrow> nat option" NoFile 0
          Map.empty "Map.empty :: string \<Rightarrow> subscription list option"]
    C7_load_never_raises [of "Map.empty :: string \<Rightarrow> nat option" Unreadable 0
          Map.empty "Map.empty :: string \<Rightarrow> subscription list option"]
  by simp

text \<open>
  Claim C10. An unsubscribe request that names a known id answers success, removes that
  id's record, leaves the record of every other id as it was, and writes the resulting
  mapping to the file.
\<close>

theorem C10_unsubscribe_removes_only_that_id:
  assumes "or_else (body_id req) (query_id req) = Some rid" and "rid \<noteq> []"
    and "map_of (subscriptions s) rid = Some it"
  shows "fst (unsubscribe req s) = json_success True \<and>
         map_of (subscriptions (snd (unsubscribe req s))) rid = None \<and>
         (\<forall>k. k \<noteq> rid \<longrightarrow>
            map_of (subscriptions (snd (unsubscribe req s))) k = map_of (subscriptions s) k) \<and>
         sub_file (snd (unsubscribe req s)) = subscriptions (snd (unsubscribe req s))"
  using assms
  by (auto simp: unsubscribe_def has_property_def remove_record_def persistSubscriptions_def
        Let_def AList.delete_conv' split: option.splits)

theorem C10_unsubscribe_removes_only_that_id_witness:
  "map_of (subscriptions (snd (unsubscribe \<lparr>body_id = Some ''a'', query_id = None\<rparr>
      (boot [(''a'', sample_item ''a'' None [''09:00'']), (''b'', sample_item ''b'' None [])])))) ''a'' = None \<and>
   map_of (subscriptions (snd (unsubscribe \<lparr>body_id = Some ''a'', query_id = None\<rparr>
      (boot [(''a'', sample_item ''a'' None [''09:00'']), (''b'', sample_item ''b'' None [])])))) ''b''
     = Some (sample_item ''b'' None [])"
  using C10_unsubscribe_removes_only_that_id
    [of "\<lparr>body_id = Some ''a'', query_id = None\<rparr>" "''a''"
        "boot [(''a'', sample_item ''a'' None [''09:00'']), (''b'', sample_item ''b'' None [])]"
        "sample_item ''a'' None [''09:00'']"]
  by (simp add: or_else_def boot_def)

text \<open>
  Claim C1 on the code. A recipient has two daily triggers. The first fires and the
  transport answers 410: the record leaves the store and the file, and the firing job is
  stopped, but the second daily trigger stays armed, and when it fires it dispatches to
  the same endpoint again. Likewise with a launch timer and one daily trigger: the timer
  fires, the transport answers 410, the record is removed, and the daily trigger stays
  armed. In general a fire removes the record when the transport answers 410 or 404
  (lemma \<open>fire_gone_removes_record\<close>) and changes no trigger but the one that fired
  (lemma \<open>fire_touches_only_its_trigger\<close>); \<^verbatim>\<open>/api/unsubscribe\<close> is the path that stops
  every trigger of the recipient.
\<close>

theorem C1_gone_leaves_other_triggers_armed:
  "map armed (triggers two_dailies) = [True, True] \<and>
   map_of (subscriptions (snd (fire net_gone 5 0 two_dailies))) ''a'' = None \<and>
   sub_file (snd (fire net_gone 5 0 two_dailies)) = [] \<and>
   map armed (triggers (snd (fire net_gone 5 0 two_dailies))) = [False, True] \<and>
   pushes (snd (fire net_gone 6 1 (snd (fire net_gone 5 0 two_dailies)))) =
     [(sample_sub, DailyReminder), (sample_sub, DailyReminder)] \<and>
   map kind (triggers launch_and_daily) = [LaunchTimer, DailyJob] \<and>
   map_of (subscriptions (snd (fire net_gone launch_ms 0 launch_and_daily))) ''a'' = None \<and>
   map armed (triggers (snd (fire net_gone launch_ms 0 launch_and_daily))) = [False, True]"
  by code_simp







text \<open>
  Claim C4 on the code. The claim says that every armed trigger of a record has its fire
  time evaluated in the record's stored timezone, not in the host's. The launch timer is
  not: its delay is \<^verbatim>\<open>new Date(item.launchIso) - now\<close> (server.js lines 102 and 103), the
  string being read in the host's zone, and the stored timezone is never consulted. The
  client's own record (launch \<^verbatim>\<open>'2025-09-13T00:00:00'\<close>, zone Africa/Nairobi), scheduled on
  a host in UTC ten seconds before the launch instant \<open>launch_ms\<close>, gets a timer of 10810000
  ms, which fires three hours after that instant; the same record at the same moment on a
  host in Nairobi gets a timer of 10000 ms. A record stored with the zone America/New_York
  gets on the Nairobi host the timer the Nairobi record gets, seven hours before its
  launch. The two sibling paths do pass the stored timezone to node-cron: the daily jobs,
  and the launch cron job armed when the launch is too far ahead for a timer, whose fields
  are those of the string (minute 0, hour 0, day 13, month 9) on either host (lemmas
  \<open>cron_triggers_carry_stored_zone\<close> and \<open>far_launch_is_cron_and_disarms\<close>).
\<close>

theorem C4_launch_timer_ignores_stored_zone:
  "map timing (armed_of ''a'' utc_near) =
     [After 10810000, Cron [Num 0, Num 9, Star, Star, Star] ''Africa/Nairobi''] \<and>
   map (timer_instant (launch_ms - 10000) \<circ> timing) (armed_of ''a'' utc_near) =
     [Some (launch_ms + 10800000), None] \<and>
   map timing (armed_of ''a'' launch_and_daily) =
     [After 10000, Cron [Num 0, Num 9, Star, Star, Star] ''Africa/Nairobi''] \<and>
   map (timer_instant (launch_ms - 10000) \<circ> timing) (armed_of ''a'' launch_and_daily) =
     [Some launch_ms, None] \<and>
   map (timezone \<circ> snd) new_york_store = [Some ''America/New_York''] \<and>
   map timing (armed_of ''n'' new_york_near) =
     [After 10000, Cron [Num 0, Num 9, Star, Star, Star] ''America/New_York''] \<and>
   map timing (armed_of ''a'' utc_far) =
     [Cron [Num 0, Num 0, Num 13, Num 9, Star] ''Africa/Nairobi'',
      Cron [Num 0, Num 9, Star, Star, Star] ''Africa/Nairobi'']"
  by code_simp

text \<open>
  Claim C5 on the code. The claim says that a record whose launch time is in the past gets
  no launch trigger. Whether it is in the past is decided by \<^verbatim>\<open>new Date(item.launchIso) - now\<close>,
  the string read in the host's zone and not in the record's: this is the defect shown for
  claim C4. The client's own record (launch \<^verbatim>\<open>'2025-09-13T00:00:00'\<close>, zone
  Africa/Nairobi), scheduled on a host in UTC one hour after the launch instant
  \<open>launch_ms\<close>, gets a launch timer of 7200000 ms, and when that timer fires the launch
  notice is dispatched, three hours after the launch. On a host in Nairobi the same call
  arms the daily trigger only. What holds on every host is that no launch trigger is armed
  when the date as the host reads it is not after the clock reading (lemma
  \<open>past_launch_by_host_reading_not_planned\<close>).
\<close>

theorem C5_past_launch_armed_on_utc_host:
  "map launchIso (map snd launch_store) = [Some ''2025-09-13T00:00:00''] \<and>
   map (timezone \<circ> snd) launch_store = [Some ''Africa/Nairobi''] \<and>
   map kind (armed_of ''a'' utc_late) = [LaunchTimer, DailyJob] \<and>
   map timing (armed_of ''a'' utc_late) =
     [After 7200000, Cron [Num 0, Num 9, Star, Star, Star] ''Africa/Nairobi''] \<and>
   map (timer_instant (launch_ms + 3600000) \<circ> timing) (armed_of ''a'' utc_late) =
     [Some (launch_ms + 10800000), None] \<and>
   pushes (snd (fire net_ok (launch_ms + 10800000) 0 utc_late)) = [(sample_sub, LaunchNotice)] \<and>
   map kind (armed_of ''a'' nairobi_late) = [DailyJob]"
  by code_simp

text \<open>
  Claim C6 on the code. The claim says that an entry of \<^verbatim>\<open>dailyTimes\<close> whose hour or
  minute is unparsable is skipped on its own and every well-formed entry of the record
  still gets its trigger. The \<^verbatim>\<open>forEach\<close> has no \<^verbatim>\<open>try\<close> inside it, so an entry that
  throws ends the scheduling of its record. Record \<open>b\<close> holds the entries soon, the number
  900 and 13:00: soon is skipped, \<^verbatim>\<open>hhmm.split\<close> throws a TypeError at the number, and
  13:00, which parses and which node-cron accepts, gets no trigger. On a host whose
  node-cron rejects hour 24, record \<open>b\<close> holding soon, 24:00 and 13:00 ends the same way:
  24:00 parses to hour 24 and minute 0, \<^verbatim>\<open>cron.schedule\<close> throws, and 13:00 gets no
  trigger. In both cases \<^verbatim>\<open>rescheduleAll\<close> catches the throw, record \<open>a\<close> is
  scheduled and the store keeps both records. When no entry of a record throws, the
  entries that do not parse are skipped one by one (lemma
  \<open>unparsable_entries_skipped_when_nothing_throws\<close>).
\<close>

theorem C6_throwing_entry_ends_the_record:
  "map parse_entry (daily_entries (snd (number_entry_store ! 0))) = [None, None, Some (13, 0)] \<and>
   cron_accepts sample_host (daily_expr 13 0) ''Africa/Nairobi'' \<and>
   fst (scheduleFor sample_host 0 ''b'' (boot number_entry_store)) = Some TypeError \<and>
   armed_of ''b'' number_entry_rescheduled = [] \<and>
   map timing (armed_of ''a'' number_entry_rescheduled) =
     [Cron [Num 0, Num 9, Star, Star, Star] ''Africa/Nairobi''] \<and>
   map fst (subscriptions number_entry_rescheduled) = [''b'', ''a''] \<and>
   map parse_entry (daily_entries (snd (hour24_store ! 0))) = [None, Some (24, 0), Some (13, 0)] \<and>
   cron_accepts strict_host (daily_expr 13 0) ''Africa/Nairobi'' \<and>
   \<not> cron_accepts strict_host (daily_expr 24 0) ''Africa/Nairobi'' \<and>
   fst (scheduleFor strict_host 0 ''b'' (boot hour24_store)) = Some CronError \<and>
   armed_of ''b'' hour24_rescheduled = [] \<and>
   map timing (armed_of ''a'' hour24_rescheduled) =
     [Cron [Num 0, Num 9, Star, Star, Star] ''Africa/Nairobi''] \<and>
   map fst (subscriptions hour24_rescheduled) = [''b'', ''a'']"
  by code_simp




end
